theory Spec2Isabelle
  imports Complex_Main
begin

section \<open>Python text\<close>

text \<open>
  A Python \<open>str\<close> is a sequence of Unicode code points and \<open>len\<close> counts code points,
  so a text is modelled as the list of its code points. \<open>py\<close> embeds an ASCII literal.
\<close>

type_synonym pystr = "nat list"

definition py :: "string \<Rightarrow> pystr" where
  "py s = map of_char s"


text \<open>
  \<open>needle in hay\<close> on texts: the needle occurs as a contiguous run of the hay.
\<close>

fun py_in :: "pystr \<Rightarrow> pystr \<Rightarrow> bool" where
  "py_in needle [] = (needle = [])"
| "py_in needle (c # rest) = (take (length needle) (c # rest) = needle \<or> py_in needle rest)"

text \<open>
  \<open>str(n)\<close> for a natural number and for an integer, and \<open>'%0wd' % n\<close>.
  Code point 48 is the digit zero.
\<close>

fun str_nat :: "nat \<Rightarrow> pystr" where
  "str_nat n = (if n < 10 then [48 + n] else str_nat (n div 10) @ [48 + n mod 10])"

declare str_nat.simps [simp del]

definition str_int :: "int \<Rightarrow> pystr" where
  "str_int i = (if i < 0 then py ''-'' @ str_nat (nat (- i)) else str_nat (nat i))"

definition zpad :: "nat \<Rightarrow> nat \<Rightarrow> pystr" where
  "zpad w n = replicate (w - length (str_nat n)) 48 @ str_nat n"

section \<open>Python values\<close>

text \<open>
  \<open>datetime.datetime\<close> with its fields; the UTC offset (in minutes) is present for an
  aware value. \<open>isoformat\<close> is the library's method with its default arguments.
\<close>

record datetime =
  dt_year :: nat
  dt_month :: nat
  dt_day :: nat
  dt_hour :: nat
  dt_minute :: nat
  dt_second :: nat
  dt_microsecond :: nat
  dt_utcoffset :: "int option"

definition isoformat :: "datetime \<Rightarrow> pystr" where
  "isoformat d =
     zpad 4 (dt_year d) @ py ''-'' @ zpad 2 (dt_month d) @ py ''-'' @ zpad 2 (dt_day d) @
     py ''T'' @
     zpad 2 (dt_hour d) @ py '':'' @ zpad 2 (dt_minute d) @ py '':'' @ zpad 2 (dt_second d) @
     (if dt_microsecond d = 0 then [] else py ''.'' @ zpad 6 (dt_microsecond d)) @
     (case dt_utcoffset d of
        None \<Rightarrow> []
      | Some m \<Rightarrow> (if m < 0 then py ''-'' else py ''+'') @
          zpad 2 (nat \<bar>m\<bar> div 60) @ py '':'' @ zpad 2 (nat \<bar>m\<bar> mod 60))"

text \<open>An example value.\<close>

definition new_year :: datetime where
  "new_year = \<lparr>dt_year = 2024, dt_month = 1, dt_day = 1, dt_hour = 0, dt_minute = 0,
      dt_second = 0, dt_microsecond = 0, dt_utcoffset = None\<rparr>"

text \<open>
  The values a result row can hold. A float is kept as the text its \<open>repr\<close> gives, a
  \<open>datetime.date\<close> as year, month and day. A dict is the list of its items in insertion
  order. \<open>datetime.date\<close> is the base class of \<open>datetime.datetime\<close>, so a date is no
  instance of \<open>datetime\<close>; a tuple is no instance of \<open>list\<close>.
\<close>

datatype pyval =
    PyNone
  | PyBool bool
  | PyInt int
  | PyFloat pystr
  | PyStr pystr
  | PyDatetime datetime
  | PyDate nat nat nat
  | PyList "pyval list"
  | PyTuple "pyval list"
  | PyDict "(pyval \<times> pyval) list"

text \<open>
  \<^verbatim>\<open>
  def _serialize_datetime(obj: Any) -> Any:
      if isinstance(obj, datetime):
          return obj.isoformat()
      elif isinstance(obj, dict):
          return {key: _serialize_datetime(value) for key, value in obj.items()}
      elif isinstance(obj, list):
          return [_serialize_datetime(item) for item in obj]
      else:
          return obj
  \<close>
\<close>

fun serialize_datetime :: "pyval \<Rightarrow> pyval" where
  "serialize_datetime (PyDatetime obj) = PyStr (isoformat obj)"
| "serialize_datetime (PyDict items) =
     PyDict (map (\<lambda>(key, value). (key, serialize_datetime value)) items)"
| "serialize_datetime (PyList items) = PyList (map serialize_datetime items)"
| "serialize_datetime obj = obj"

text \<open>
  The value found by walking into list items and dict values: step \<open>i\<close> selects the
  \<open>i\<close>-th item of a list or the value of the \<open>i\<close>-th entry of a dict.
\<close>

fun value_at :: "nat list \<Rightarrow> pyval \<Rightarrow> pyval option" where
  "value_at [] obj = Some obj"
| "value_at (i # path) (PyList items) =
     (if i < length items then value_at path (items ! i) else None)"
| "value_at (i # path) (PyDict items) =
     (if i < length items then value_at path (snd (items ! i)) else None)"
| "value_at (i # path) obj = None"

text \<open>The values that are neither temporal nor containers.\<close>

fun is_plain :: "pyval \<Rightarrow> bool" where
  "is_plain PyNone = True"
| "is_plain (PyBool b) = True"
| "is_plain (PyInt i) = True"
| "is_plain (PyFloat r) = True"
| "is_plain (PyStr s) = True"
| "is_plain obj = False"

section \<open>Exceptions and the world outside\<close>

text \<open>
  The exceptions of the model, each with the text \<open>str(e)\<close> gives. \<open>OSError\<close> is what a
  file-system call raises for a reason other than a missing file, \<open>EngineError\<close> stands
  for whatever the query engine raises. All of them are subclasses of \<open>Exception\<close>.
\<close>

datatype pyexn =
    FileNotFoundError pystr
  | OSError pystr
  | UnboundLocalError pystr
  | TypeError pystr
  | EngineError pystr

fun str_exn :: "pyexn \<Rightarrow> pystr" where
  "str_exn (FileNotFoundError m) = m"
| "str_exn (OSError m) = m"
| "str_exn (UnboundLocalError m) = m"
| "str_exn (TypeError m) = m"
| "str_exn (EngineError m) = m"

text \<open>
  What the tools reach outside Python: the two existence checks, \<open>Path.stem\<close>, the
  query engine, the JSON decoder on a text that starts with a bracket (the decoded array,
  or \<open>None\<close> for \<open>JSONDecodeError\<close>), and the text of \<open>list(table_names)\<close>, which
  depends on the iteration order of a set. \<open>os.path.exists\<close> answers \<open>False\<close> for every
  error of the file system and never raises. \<open>Path.exists\<close> answers \<open>False\<close> only when
  the error says that the file is missing (\<open>ENOENT\<close>, \<open>ENOTDIR\<close>, \<open>EBADF\<close>, \<open>ELOOP\<close>);
  any other \<open>OSError\<close>, such as a name that is too long or a directory that may not be
  read, is raised to the caller.
\<close>

record 'c world =
  os_path_exists :: "pystr \<Rightarrow> bool"
  Path_exists :: "pystr \<Rightarrow> pyexn + bool"
  Path_stem :: "pystr \<Rightarrow> pystr"
  duckdb_connect :: "pyexn + 'c"
  execute :: "'c \<Rightarrow> pystr \<Rightarrow> pyexn + 'c"
  fetchall :: "'c \<Rightarrow> pyexn + pyval list list"
  description :: "'c \<Rightarrow> pystr list"
  json_loads :: "pystr \<Rightarrow> pyval list option"
  str_of_names :: "pystr list \<Rightarrow> pystr"

section \<open>Validating the input files\<close>

text \<open>
  \<^verbatim>\<open>
  def _validate_parquet_files(parquet_files: Union[str, List[str]]) -> List[str]:
      if isinstance(parquet_files, str):
          parquet_files = [parquet_files]
      for file_path in parquet_files:
          if not os.path.exists(file_path):
               if not Path(file_path).exists():
                  raise FileNotFoundError(
                      f"Parquet file not found: {file_path}\n"
                      f"Please check the file path and ensure the file exists. "
                      f"You may use 'list_tables_in_directory' to discover available parquet files."
                  )
      return parquet_files
  \<close>
  Code point 10 is the line feed, 39 the apostrophe.
\<close>

datatype files_arg = OnePath pystr | PathList "pystr list"

definition not_found_message :: "pystr \<Rightarrow> pystr" where
  "not_found_message file_path =
     py ''Parquet file not found: '' @ file_path @ [10] @
     py ''Please check the file path and ensure the file exists. '' @
     py ''You may use '' @ [39] @ py ''list_tables_in_directory'' @ [39] @
     py '' to discover available parquet files.''"

fun check_files :: "'c world \<Rightarrow> pystr list \<Rightarrow> pyexn option" where
  "check_files w [] = None"
| "check_files w (file_path # rest) =
     (if \<not> os_path_exists w file_path
      then (case Path_exists w file_path of
              Inl e \<Rightarrow> Some e
            | Inr found \<Rightarrow>
                if \<not> found
                then Some (FileNotFoundError (not_found_message file_path))
                else check_files w rest)
      else check_files w rest)"

fun as_list :: "files_arg \<Rightarrow> pystr list" where
  "as_list (OnePath file_path) = [file_path]"
| "as_list (PathList parquet_files) = parquet_files"

definition validate_parquet_files :: "'c world \<Rightarrow> files_arg \<Rightarrow> pyexn + pystr list" where
  "validate_parquet_files w arg =
     (let parquet_files = as_list arg
      in case check_files w parquet_files of
           Some e \<Rightarrow> Inl e
         | None \<Rightarrow> Inr parquet_files)"


section \<open>Relation names\<close>

text \<open>
  Two facts about \<open>str\<close> of a natural number, which the loop below needs to end: it is
  never empty, and different numbers have different texts.
\<close>

lemma str_nat_not_Nil: "str_nat n \<noteq> []"
  by (subst str_nat.simps) simp

lemma str_nat_inj: "str_nat m = str_nat n \<Longrightarrow> m = n"
proof (induction m arbitrary: n rule: str_nat.induct)
  case (1 m)
  show ?case
  proof (cases "m < 10")
    case m: True
    show ?thesis
    proof (cases "n < 10")
      case True
      then show ?thesis using m "1.prems"
        by (simp add: str_nat.simps [of m] str_nat.simps [of n])
    next
      case False
      then have "str_nat n = str_nat (n div 10) @ [48 + n mod 10]"
        by (subst str_nat.simps) simp
      then have "length (str_nat n) \<ge> 2"
        using str_nat_not_Nil [of "n div 10"] by (cases "str_nat (n div 10)") simp_all
      moreover have "length (str_nat m) = 1" using m by (subst str_nat.simps) simp
      ultimately show ?thesis using "1.prems" by simp
    qed
  next
    case m: False
    then have sm: "str_nat m = str_nat (m div 10) @ [48 + m mod 10]"
      by (subst str_nat.simps) simp
    show ?thesis
    proof (cases "n < 10")
      case True
      then have "length (str_nat n) = 1" by (subst str_nat.simps) simp
      moreover have "length (str_nat m) \<ge> 2"
        using sm str_nat_not_Nil [of "m div 10"] by (cases "str_nat (m div 10)") simp_all
      ultimately show ?thesis using "1.prems" by simp
    next
      case False
      then have sn: "str_nat n = str_nat (n div 10) @ [48 + n mod 10]"
        by (subst str_nat.simps) simp
      from "1.prems" sm sn have "str_nat (m div 10) = str_nat (n div 10)" and md: "m mod 10 = n mod 10"
        by simp_all
      then have "m div 10 = n div 10" using "1.IH" m by blast
      then show ?thesis using md by (metis div_mult_mod_eq)
    qed
  qed
qed

lemma finite_suffix_indices:
  "finite {k. base_name @ py ''_'' @ str_nat k \<in> set table_names}"
proof -
  have "inj (\<lambda>k. base_name @ py ''_'' @ str_nat k)"
    by (rule injI) (simp add: str_nat_inj)
  then have "finite ((\<lambda>k. base_name @ py ''_'' @ str_nat k) -` set table_names)"
    by (intro finite_vimageI) simp_all
  then show ?thesis by (simp add: vimage_def)
qed

text \<open>
  \<^verbatim>\<open>
  table_names = set()
  for file_path in parquet_files:
      base_name = Path(file_path).stem
      table_name = base_name
      counter = 1
      while table_name in table_names:
          table_name = f"{base_name}_{counter}"
          counter += 1
      table_names.add(table_name)
      conn.execute(f"CREATE VIEW {table_name} AS SELECT * FROM read_parquet('{file_path}')")
  \<close>
  \<open>unique_table_name\<close> is the \<open>while\<close> loop, started with \<open>table_name = base_name\<close> and
  \<open>counter = 1\<close>. It ends because only finitely many suffixed names are taken. The set
  \<open>table_names\<close> is kept as the list of its elements in the order they were added; the loop
  adds only names that are not in it. \<open>register_views\<close> is the \<open>for\<close> loop: it gives the
  connection and the names, or the exception of the engine with the names added so far.
\<close>

function unique_table_name :: "pystr \<Rightarrow> pystr \<Rightarrow> nat \<Rightarrow> pystr list \<Rightarrow> pystr" where
  "unique_table_name base_name table_name counter table_names =
     (if table_name \<in> set table_names
      then unique_table_name base_name (base_name @ py ''_'' @ str_nat counter) (counter + 1)
             table_names
      else table_name)"
  by pat_completeness auto
termination
proof (relation "measure (\<lambda>(base_name, table_name, counter, table_names).
    card {k. counter \<le> k \<and> base_name @ py ''_'' @ str_nat k \<in> set table_names} +
    (if table_name \<in> set table_names then 1 else 0))")
  show "wf (measure (\<lambda>(base_name, table_name, counter, table_names).
    card {k. counter \<le> k \<and> base_name @ py ''_'' @ str_nat k \<in> set table_names} +
    (if table_name \<in> set table_names then 1 else 0)))"
    by simp
next
  fix base_name table_name :: pystr and counter :: nat and table_names :: "pystr list"
  assume "table_name \<in> set table_names"
  let ?A = "\<lambda>c. {k. c \<le> k \<and> base_name @ py ''_'' @ str_nat k \<in> set table_names}"
  have fin: "finite (?A c)" for c
    by (rule finite_subset [OF _ finite_suffix_indices [of base_name table_names]]) auto
  have "card (?A (counter + 1)) +
      (if base_name @ py ''_'' @ str_nat counter \<in> set table_names then 1 else 0) = card (?A counter)"
  proof (cases "base_name @ py ''_'' @ str_nat counter \<in> set table_names")
    case True
    then have "?A counter = insert counter (?A (counter + 1))" by (auto simp: le_Suc_eq)
    moreover have "counter \<notin> ?A (counter + 1)" by simp
    ultimately show ?thesis using True fin [of "counter + 1"] by simp
  next
    case False
    then have "?A counter = ?A (counter + 1)"
      by (auto simp: Suc_le_eq order_le_less)
    then show ?thesis using False by simp
  qed
  then show "((base_name, base_name @ py ''_'' @ str_nat counter, counter + 1, table_names),
         (base_name, table_name, counter, table_names))
        \<in> measure (\<lambda>(base_name, table_name, counter, table_names).
    card {k. counter \<le> k \<and> base_name @ py ''_'' @ str_nat k \<in> set table_names} +
    (if table_name \<in> set table_names then 1 else 0))"
    using \<open>table_name \<in> set table_names\<close> by simp
qed

declare unique_table_name.simps [simp del]

definition create_view_sql :: "pystr \<Rightarrow> pystr \<Rightarrow> pystr" where
  "create_view_sql table_name file_path =
     py ''CREATE VIEW '' @ table_name @ py '' AS SELECT * FROM read_parquet('' @ [39] @
     file_path @ [39] @ py '')''"

fun register_views ::
  "'c world \<Rightarrow> 'c \<Rightarrow> pystr list \<Rightarrow> pystr list \<Rightarrow> (pyexn \<times> pystr list) + ('c \<times> pystr list)" where
  "register_views w conn [] table_names = Inr (conn, table_names)"
| "register_views w conn (file_path # rest) table_names =
     (let base_name = Path_stem w file_path;
          table_name = unique_table_name base_name base_name 1 table_names;
          table_names' = table_names @ [table_name]
      in case execute w conn (create_view_sql table_name file_path) of
           Inl e \<Rightarrow> Inl (e, table_names')
         | Inr conn' \<Rightarrow> register_views w conn' rest table_names')"

text \<open>The names alone: what the loop adds for a list of stems, after the names \<open>acc\<close>.\<close>

fun assign_names :: "pystr list \<Rightarrow> pystr list \<Rightarrow> pystr list" where
  "assign_names [] acc = acc"
| "assign_names (b # bs) acc = assign_names bs (acc @ [unique_table_name b b 1 acc])"

text \<open>
  The naming scheme in the words of the specification: a source gets its stem, and a
  source whose stem \<open>k\<close> earlier sources share gets the stem followed by \<open>_k\<close>.
\<close>

definition suffixed :: "pystr \<Rightarrow> nat \<Rightarrow> pystr" where
  "suffixed stem k = (if k = 0 then stem else stem @ py ''_'' @ str_nat k)"

definition spec_table_names :: "pystr list \<Rightarrow> pystr list" where
  "spec_table_names stems =
     map (\<lambda>i. suffixed (stems ! i) (count_list (take i stems) (stems ! i))) [0..<length stems]"


section \<open>Python floats\<close>

text \<open>
  A Python float is an IEEE 754 binary64 number. A finite one is a rational, and every
  operation returns the exact result rounded to the nearest number with a 53-bit
  significand, ties to the even significand. \<open>binary64\<close> is that rounding; the bounded
  exponent range (overflow, subnormal numbers) is left out: it is not reached by the
  quotients and products of row counts and token estimates the guard computes.
  \<open>floor_log2 x\<close> is the exponent \<open>k\<close> with \<open>2 ^ k \<le> x < 2 ^ (k + 1)\<close>.
\<close>

function bit_length :: "int \<Rightarrow> int" where
  "bit_length i = (if i \<le> 0 then 0 else 1 + bit_length (i div 2))"
  by pat_completeness auto
termination
  by (relation "measure nat") auto

declare bit_length.simps [simp del]

definition floor_log2 :: "rat \<Rightarrow> int" where
  "floor_log2 x =
     (let (p, q) = quotient_of x;
          d = bit_length p - bit_length q
      in if 2 powi d \<le> x then d else d - 1)"

definition round_half_even :: "rat \<Rightarrow> int" where
  "round_half_even x =
     (let f = \<lfloor>x\<rfloor>; d = x - of_int f
      in if d < 1 / 2 then f else if 1 / 2 < d then f + 1 else if even f then f else f + 1)"

definition binary64 :: "rat \<Rightarrow> rat" where
  "binary64 x =
     (if x = 0 then 0
      else let u = 2 powi (floor_log2 \<bar>x\<bar> - 52)
           in sgn x * of_int (round_half_even (\<bar>x\<bar> / u)) * u)"

definition float_truediv :: "int \<Rightarrow> int \<Rightarrow> rat" where
  "float_truediv a b = binary64 (of_int a / of_int b)"

definition float_mul :: "rat \<Rightarrow> rat \<Rightarrow> rat" where
  "float_mul a b = binary64 (a * b)"

definition float_of_int :: "int \<Rightarrow> rat" where
  "float_of_int i = binary64 (of_int i)"

definition int_of_float :: "rat \<Rightarrow> int" where
  "int_of_float x = (if 0 \<le> x then \<lfloor>x\<rfloor> else \<lceil>x\<rceil>)"


section \<open>The JSON encoder\<close>

text \<open>
  \<open>json.dumps(obj, ensure_ascii=False, indent=2)\<close> of the standard library: the escapes of
  \<open>encode_basestring\<close> (code point 34 is the double quote, 92 the backslash), the keys a
  dict may have, and the layout with two spaces per nesting level. An object of another
  class raises \<open>TypeError\<close>.
\<close>

definition hex_digit :: "nat \<Rightarrow> nat" where
  "hex_digit d = (if d < 10 then 48 + d else 87 + d)"

definition escape_char :: "nat \<Rightarrow> pystr" where
  "escape_char c =
     (if c = 34 then [92, 34]
      else if c = 92 then [92, 92]
      else if c = 10 then [92, 110]
      else if c = 13 then [92, 114]
      else if c = 9 then [92, 116]
      else if c = 8 then [92, 98]
      else if c = 12 then [92, 102]
      else if c < 32 then [92, 117, 48, 48, hex_digit (c div 16), hex_digit (c mod 16)]
      else [c])"

definition encode_basestring :: "pystr \<Rightarrow> pystr" where
  "encode_basestring s = [34] @ concat (map escape_char s) @ [34]"

fun class_name :: "pyval \<Rightarrow> pystr" where
  "class_name PyNone = py ''NoneType''"
| "class_name (PyBool b) = py ''bool''"
| "class_name (PyInt i) = py ''int''"
| "class_name (PyFloat r) = py ''float''"
| "class_name (PyStr s) = py ''str''"
| "class_name (PyDatetime d) = py ''datetime''"
| "class_name (PyDate y m d) = py ''date''"
| "class_name (PyList xs) = py ''list''"
| "class_name (PyTuple xs) = py ''tuple''"
| "class_name (PyDict kvs) = py ''dict''"

fun json_key :: "pyval \<Rightarrow> pyexn + pystr" where
  "json_key (PyStr s) = Inr s"
| "json_key (PyFloat r) = Inr r"
| "json_key (PyBool b) = Inr (if b then py ''true'' else py ''false'')"
| "json_key PyNone = Inr (py ''null'')"
| "json_key (PyInt i) = Inr (str_int i)"
| "json_key key =
     Inl (TypeError (py ''keys must be str, int, float, bool or None, not '' @ class_name key))"

fun collect :: "(pyexn + 'a) list \<Rightarrow> pyexn + 'a list" where
  "collect [] = Inr []"
| "collect (x # xs) =
     (case x of
        Inl e \<Rightarrow> Inl e
      | Inr v \<Rightarrow> (case collect xs of Inl e \<Rightarrow> Inl e | Inr vs \<Rightarrow> Inr (v # vs)))"

fun join :: "pystr \<Rightarrow> pystr list \<Rightarrow> pystr" where
  "join sep [] = []"
| "join sep [x] = x"
| "join sep (x # y # ys) = x @ sep @ join sep (y # ys)"

definition newline_indent :: "nat \<Rightarrow> pystr" where
  "newline_indent level = [10] @ replicate (2 * level) 32"

definition not_serializable :: "pyval \<Rightarrow> pyexn" where
  "not_serializable obj =
     TypeError (py ''Object of type '' @ class_name obj @ py '' is not JSON serializable'')"

fun iterencode :: "nat \<Rightarrow> pyval \<Rightarrow> pyexn + pystr" where
  "iterencode level PyNone = Inr (py ''null'')"
| "iterencode level (PyBool b) = Inr (if b then py ''true'' else py ''false'')"
| "iterencode level (PyInt i) = Inr (str_int i)"
| "iterencode level (PyFloat r) = Inr r"
| "iterencode level (PyStr s) = Inr (encode_basestring s)"
| "iterencode level (PyList items) =
     (if items = [] then Inr (py ''[]'')
      else case collect (map (iterencode (Suc level)) items) of
             Inl e \<Rightarrow> Inl e
           | Inr chunks \<Rightarrow>
               Inr (py ''['' @ newline_indent (Suc level) @
                    join (py '','' @ newline_indent (Suc level)) chunks @
                    newline_indent level @ py '']''))"
| "iterencode level (PyTuple items) =
     (if items = [] then Inr (py ''[]'')
      else case collect (map (iterencode (Suc level)) items) of
             Inl e \<Rightarrow> Inl e
           | Inr chunks \<Rightarrow>
               Inr (py ''['' @ newline_indent (Suc level) @
                    join (py '','' @ newline_indent (Suc level)) chunks @
                    newline_indent level @ py '']''))"
| "iterencode level (PyDict items) =
     (if items = [] then Inr (py ''{}'')
      else case collect (map (\<lambda>(key, value).
                    case json_key key of
                      Inl e \<Rightarrow> Inl e
                    | Inr k \<Rightarrow>
                        (case iterencode (Suc level) value of
                           Inl e \<Rightarrow> Inl e
                         | Inr v \<Rightarrow> Inr (encode_basestring k @ py '': '' @ v))) items) of
             Inl e \<Rightarrow> Inl e
           | Inr chunks \<Rightarrow>
               Inr (py ''{'' @ newline_indent (Suc level) @
                    join (py '','' @ newline_indent (Suc level)) chunks @
                    newline_indent level @ py ''}''))"
| "iterencode level obj = Inl (not_serializable obj)"

definition json_dumps :: "pyval \<Rightarrow> pyexn + pystr" where
  "json_dumps obj = iterencode 0 obj"


section \<open>The size-budget guard\<close>

definition TOKEN_LIMIT :: int where
  "TOKEN_LIMIT = 5000"

text \<open>
  \<^verbatim>\<open>
  def _estimate_token_count(text: str) -> int:
      average_chars_per_token = 3
      return (len(text) + average_chars_per_token - 1) // average_chars_per_token
  \<close>
\<close>

definition estimate_token_count :: "pystr \<Rightarrow> int" where
  "estimate_token_count text =
     (let average_chars_per_token = 3
      in (int (length text) + average_chars_per_token - 1) div average_chars_per_token)"


text \<open>
  \<^verbatim>\<open>
  def _enforce_token_limit(payload: str, context: str) -> str:
      token_estimate = _estimate_token_count(payload)
      if token_estimate <= TOKEN_LIMIT:
          return payload
      try:
          current_size = len(json.loads(payload)) if payload.startswith("[") else None
      except json.JSONDecodeError:
          current_size = None
      suggested_limit = None
      if current_size:
          ratio = TOKEN_LIMIT / token_estimate
          suggested_limit = max(1, int(current_size * ratio * 0.8))
      suggestion_parts = [
          "The query result is too large. Please adjust your query:",
          "  * Reduce the LIMIT value" + (f" (try LIMIT {suggested_limit})" if suggested_limit else ""),
          "  * Filter rows with WHERE clauses to reduce result size",
          "  * Select only necessary columns instead of SELECT *",
          "  * Use aggregation (COUNT, SUM, AVG) instead of retrieving raw rows",
      ]
      warning = {
          "error": "Result exceeds token budget",
          "context": context,
          "estimated_tokens": token_estimate,
          "token_limit": TOKEN_LIMIT,
          "rows_returned": current_size,
          "suggested_limit": suggested_limit,
          "suggestion": "\n".join(suggestion_parts),
      }
      return json.dumps(warning, ensure_ascii=False, indent=2)
  \<close>
  The bullet of the source (written \<open>*\<close> above) is the code point 8226. The decoder
  \<open>json.loads\<close> is a parameter: on a text that starts with a bracket it gives the decoded
  array, or \<open>None\<close> for \<open>JSONDecodeError\<close>. \<open>if current_size\<close> is false for \<open>None\<close> and
  for zero.
\<close>

definition startswith :: "pystr \<Rightarrow> pystr \<Rightarrow> bool" where
  "startswith s p = (take (length p) s = p)"

definition current_size_of :: "(pystr \<Rightarrow> pyval list option) \<Rightarrow> pystr \<Rightarrow> int option" where
  "current_size_of loads payload =
     (if startswith payload (py ''['')
      then (case loads payload of None \<Rightarrow> None | Some items \<Rightarrow> Some (int (length items)))
      else None)"

definition suggested_limit_of :: "int option \<Rightarrow> int \<Rightarrow> int option" where
  "suggested_limit_of current_size token_estimate =
     (case current_size of
        None \<Rightarrow> None
      | Some n \<Rightarrow>
          if n \<noteq> 0
          then (let ratio = float_truediv TOKEN_LIMIT token_estimate
                in Some (max 1 (int_of_float
                     (float_mul (float_mul (float_of_int n) ratio) (binary64 (8 / 10))))))
          else None)"

definition py_optional :: "int option \<Rightarrow> pyval" where
  "py_optional v = (case v of None \<Rightarrow> PyNone | Some i \<Rightarrow> PyInt i)"

definition suggestion_parts :: "int option \<Rightarrow> pystr list" where
  "suggestion_parts suggested_limit =
     [py ''The query result is too large. Please adjust your query:'',
      py ''  '' @ [8226] @ py '' Reduce the LIMIT value'' @
        (case suggested_limit of
           None \<Rightarrow> []
         | Some l \<Rightarrow> py '' (try LIMIT '' @ str_int l @ py '')''),
      py ''  '' @ [8226] @ py '' Filter rows with WHERE clauses to reduce result size'',
      py ''  '' @ [8226] @ py '' Select only necessary columns instead of SELECT *'',
      py ''  '' @ [8226] @ py '' Use aggregation (COUNT, SUM, AVG) instead of retrieving raw rows'']"

definition token_warning :: "(pystr \<Rightarrow> pyval list option) \<Rightarrow> pystr \<Rightarrow> pystr \<Rightarrow> pyval" where
  "token_warning loads payload context =
     (let token_estimate = estimate_token_count payload;
          current_size = current_size_of loads payload;
          suggested_limit = suggested_limit_of current_size token_estimate
      in PyDict
           [(PyStr (py ''error''), PyStr (py ''Result exceeds token budget'')),
            (PyStr (py ''context''), PyStr context),
            (PyStr (py ''estimated_tokens''), PyInt token_estimate),
            (PyStr (py ''token_limit''), PyInt TOKEN_LIMIT),
            (PyStr (py ''rows_returned''), py_optional current_size),
            (PyStr (py ''suggested_limit''), py_optional suggested_limit),
            (PyStr (py ''suggestion''), PyStr (join [10] (suggestion_parts suggested_limit)))])"

definition enforce_token_limit ::
  "(pystr \<Rightarrow> pyval list option) \<Rightarrow> pystr \<Rightarrow> pystr \<Rightarrow> pyexn + pystr" where
  "enforce_token_limit loads payload context =
     (let token_estimate = estimate_token_count payload
      in if token_estimate \<le> TOKEN_LIMIT then Inr payload
         else json_dumps (token_warning loads payload context))"


text \<open>
  The text of the serialized warning, written out: the fields in the order of the source,
  two spaces of indentation. \<open>json_optional\<close> is the text of \<open>None\<close> or of an integer;
  a \<open>plain_char\<close> is a code point the encoder copies.
\<close>

definition warning_text :: "pystr \<Rightarrow> int \<Rightarrow> pystr \<Rightarrow> pystr \<Rightarrow> pystr \<Rightarrow> pystr" where
  "warning_text context token_estimate rows cap tips =
     py ''{'' @ [10] @
     py ''  '' @ [34] @ py ''error'' @ [34] @ py '': '' @ [34] @ py ''Result exceeds token budget'' @ [34] @ py '','' @ [10] @
     py ''  '' @ [34] @ py ''context'' @ [34] @ py '': '' @ encode_basestring context @ py '','' @ [10] @
     py ''  '' @ [34] @ py ''estimated_tokens'' @ [34] @ py '': '' @ str_int token_estimate @ py '','' @ [10] @
     py ''  '' @ [34] @ py ''token_limit'' @ [34] @ py '': '' @ py ''5000'' @ py '','' @ [10] @
     py ''  '' @ [34] @ py ''rows_returned'' @ [34] @ py '': '' @ rows @ py '','' @ [10] @
     py ''  '' @ [34] @ py ''suggested_limit'' @ [34] @ py '': '' @ cap @ py '','' @ [10] @
     py ''  '' @ [34] @ py ''suggestion'' @ [34] @ py '': '' @ encode_basestring tips @ [10] @
     py ''}''"

definition json_optional :: "int option \<Rightarrow> pystr" where
  "json_optional v = (case v of None \<Rightarrow> py ''null'' | Some i \<Rightarrow> str_int i)"

definition plain_char :: "nat \<Rightarrow> bool" where
  "plain_char c = (32 \<le> c \<and> c \<noteq> 34 \<and> c \<noteq> 92)"


section \<open>The query tool\<close>

text \<open>
  \<^verbatim>\<open>
  def query_parquet_files(parquet_files, query: str, limit: int = 50) -> str:
      try:
          parquet_files = _validate_parquet_files(parquet_files)
          conn = duckdb.connect(":memory:")
          table_names = set()
          for file_path in parquet_files:
              ...
          result = conn.execute(query).fetchall()
          if not result:
               return "Query executed successfully but returned no results."
          columns = [desc[0] for desc in conn.description]
          rows = [dict(zip(columns, row)) for row in result]
          serialized_rows = _serialize_datetime(rows)
          if len(serialized_rows) > limit:
              serialized_rows = serialized_rows[:limit]
          result_json = json.dumps(serialized_rows, ensure_ascii=False, indent=2)
          return _enforce_token_limit(result_json, "query_parquet_files")
      except Exception as e:
          error_msg = str(e)
          if "syntax error" in error_msg.lower() or "parser error" in error_msg.lower():
              return (f"SQL syntax error: {error_msg}\n"
                      f"Query: {query}\n"
                      f"Available tables: {list(table_names)}")
          elif "catalog" in error_msg.lower() or "table" in error_msg.lower():
               return (f"Table reference error: {error_msg}\n"
                       f"Available tables: {list(table_names)}")
          else:
              return f"Query execution failed: {error_msg}"
  \<close>
  \<open>lower\<close> maps the letters A to Z to a to z. No other character has a lower-case form
  made of the letters of the four words tested, so the tests come out as with \<open>str.lower\<close>.
\<close>

definition lower :: "pystr \<Rightarrow> pystr" where
  "lower s = map (\<lambda>c. if 65 \<le> c \<and> c \<le> 90 then c + 32 else c) s"

text \<open>
  \<open>dict(pairs)\<close>: a key that comes again keeps its place and takes the new value.
  \<open>zip\<close> stops at the shorter of its arguments, in Python as in HOL.
\<close>

fun dict_set :: "pyval \<Rightarrow> pyval \<Rightarrow> (pyval \<times> pyval) list \<Rightarrow> (pyval \<times> pyval) list" where
  "dict_set key value [] = [(key, value)]"
| "dict_set key value ((k, v) # items) =
     (if k = key then (k, value) # items else (k, v) # dict_set key value items)"

definition dict_of :: "(pyval \<times> pyval) list \<Rightarrow> (pyval \<times> pyval) list" where
  "dict_of pairs = foldl (\<lambda>items (key, value). dict_set key value items) [] pairs"

definition row_dict :: "pystr list \<Rightarrow> pyval list \<Rightarrow> pyval" where
  "row_dict columns row = PyDict (dict_of (zip (map PyStr columns) row))"

text \<open>The items of a value that is a list.\<close>

fun list_items :: "pyval \<Rightarrow> pyval list" where
  "list_items (PyList items) = items"
| "list_items obj = []"

text \<open>
  The slice \<open>xs[:stop]\<close>: a negative \<open>stop\<close> counts from the end of the list.
\<close>

definition slice_to :: "int \<Rightarrow> 'a list \<Rightarrow> 'a list" where
  "slice_to stop xs =
     (if 0 \<le> stop then take (nat stop) xs else take (nat (int (length xs) + stop)) xs)"

text \<open>
  What reading the local variable \<open>table_names\<close> raises before its assignment has run
  (the message of Python 3.11 and later).
\<close>

definition unbound_table_names :: pyexn where
  "unbound_table_names =
     UnboundLocalError (py ''cannot access local variable '' @ [39] @ py ''table_names'' @ [39] @
       py '' where it is not associated with a value'')"

text \<open>
  The body of the \<open>try\<close>: the text returned, or the exception raised together with the
  local variable \<open>table_names\<close> at that moment, \<open>None\<close> while it is unbound.
\<close>

definition query_parquet_files_try ::
  "'c world \<Rightarrow> files_arg \<Rightarrow> pystr \<Rightarrow> int \<Rightarrow> (pyexn \<times> pystr list option) + pystr" where
  "query_parquet_files_try w parquet_files query limit =
     (case validate_parquet_files w parquet_files of
        Inl e \<Rightarrow> Inl (e, None)
      | Inr files \<Rightarrow>
     (case duckdb_connect w of
        Inl e \<Rightarrow> Inl (e, None)
      | Inr conn \<Rightarrow>
     (case register_views w conn files [] of
        Inl (e, table_names) \<Rightarrow> Inl (e, Some table_names)
      | Inr (conn1, table_names) \<Rightarrow>
     (case execute w conn1 query of
        Inl e \<Rightarrow> Inl (e, Some table_names)
      | Inr conn2 \<Rightarrow>
     (case fetchall w conn2 of
        Inl e \<Rightarrow> Inl (e, Some table_names)
      | Inr result \<Rightarrow>
          if result = [] then Inr (py ''Query executed successfully but returned no results.'')
          else
            let columns = description w conn2;
                rows = map (row_dict columns) result;
                serialized_rows = list_items (serialize_datetime (PyList rows));
                serialized_rows =
                  (if limit < int (length serialized_rows) then slice_to limit serialized_rows
                   else serialized_rows)
            in case json_dumps (PyList serialized_rows) of
                 Inl e \<Rightarrow> Inl (e, Some table_names)
               | Inr result_json \<Rightarrow>
                   (case enforce_token_limit (json_loads w) result_json
                           (py ''query_parquet_files'') of
                      Inl e \<Rightarrow> Inl (e, Some table_names)
                    | Inr text \<Rightarrow> Inr text))))))"

text \<open>
  The \<open>except\<close> clause. The texts it builds read \<open>table_names\<close>, after \<open>error_msg\<close> and
  \<open>query\<close>; the last branch does not.
\<close>

definition query_parquet_files_except ::
  "'c world \<Rightarrow> pystr \<Rightarrow> pyexn \<Rightarrow> pystr list option \<Rightarrow> pyexn + pystr" where
  "query_parquet_files_except w query e table_names =
     (let error_msg = str_exn e
      in if py_in (py ''syntax error'') (lower error_msg) \<or>
            py_in (py ''parser error'') (lower error_msg)
         then (case table_names of
                 None \<Rightarrow> Inl unbound_table_names
               | Some names \<Rightarrow>
                   Inr (py ''SQL syntax error: '' @ error_msg @ [10] @
                        py ''Query: '' @ query @ [10] @
                        py ''Available tables: '' @ str_of_names w names))
         else if py_in (py ''catalog'') (lower error_msg) \<or>
                 py_in (py ''table'') (lower error_msg)
         then (case table_names of
                 None \<Rightarrow> Inl unbound_table_names
               | Some names \<Rightarrow>
                   Inr (py ''Table reference error: '' @ error_msg @ [10] @
                        py ''Available tables: '' @ str_of_names w names))
         else Inr (py ''Query execution failed: '' @ error_msg))"

definition query_parquet_files ::
  "'c world \<Rightarrow> files_arg \<Rightarrow> pystr \<Rightarrow> int \<Rightarrow> pyexn + pystr" where
  "query_parquet_files w parquet_files query limit =
     (case query_parquet_files_try w parquet_files query limit of
        Inl (e, table_names) \<Rightarrow> query_parquet_files_except w query e table_names
      | Inr text \<Rightarrow> Inr text)"

section \<open>A world for examples\<close>

text \<open>
  \<open>Path(p).stem\<close> for a POSIX path: the last component that is neither empty nor a dot,
  without its last suffix (a name that starts or ends with its only dot has none). Code
  point 47 is the slash, 46 the dot. \<open>repr_names\<close> is the text of a list of names in
  the order they were added. In the example world every engine call succeeds and the query
  returns the given rows; the decoder gives the given array.
\<close>

fun split_on :: "nat \<Rightarrow> pystr \<Rightarrow> pystr list" where
  "split_on sep [] = [[]]"
| "split_on sep (c # cs) =
     (if c = sep then [] # split_on sep cs
      else (case split_on sep cs of [] \<Rightarrow> [[c]] | part # parts \<Rightarrow> (c # part) # parts))"

definition posix_name :: "pystr \<Rightarrow> pystr" where
  "posix_name p =
     (case filter (\<lambda>part. part \<noteq> [] \<and> part \<noteq> py ''.'') (split_on 47 p) of
        [] \<Rightarrow> []
      | parts \<Rightarrow> last parts)"

definition posix_stem :: "pystr \<Rightarrow> pystr" where
  "posix_stem p =
     (let name = posix_name p;
          ext = takeWhile (\<lambda>c. c \<noteq> 46) (rev name);
          i = length name - length ext - 1
      in if 46 \<in> set name \<and> 0 < i \<and> ext \<noteq> [] then take i name else name)"

definition repr_names :: "pystr list \<Rightarrow> pystr" where
  "repr_names names = py ''['' @ join (py '', '') (map (\<lambda>n. [39] @ n @ [39]) names) @ py '']''"

definition example_world ::
  "(pystr \<Rightarrow> bool) \<Rightarrow> pystr list \<Rightarrow> pyval list list \<Rightarrow> pyval list option \<Rightarrow> unit world" where
  "example_world exists columns rows decoded =
     \<lparr>os_path_exists = exists, Path_exists = (\<lambda>p. Inr (exists p)), Path_stem = posix_stem,
      duckdb_connect = Inr (), execute = (\<lambda>c q. Inr c), fetchall = (\<lambda>c. Inr rows),
      description = (\<lambda>c. columns), json_loads = (\<lambda>p. decoded), str_of_names = repr_names\<rparr>"

section \<open>Properties\<close>

text \<open>
  C7. The token estimate is a function of the text (so two calls on equal texts agree) and
  its value is the ceiling of the character length divided by three; the content of the
  text enters only through its length.
\<close>

theorem estimate_token_count_ceiling:
  "estimate_token_count s = \<lceil>real (length s) / 3\<rceil>"
proof -
  have "\<lceil>real (length s) / 3\<rceil> = - \<lfloor>real_of_int (- int (length s)) / real_of_int 3\<rfloor>"
    by (simp add: ceiling_def)
  also have "\<dots> = - ((- int (length s)) div 3)"
    by (simp only: floor_divide_of_int_eq)
  also have "\<dots> = (int (length s) + 3 - 1) div 3"
    by presburger
  finally show ?thesis
    by (simp add: estimate_token_count_def)
qed

section \<open>Temporal normalisation\<close>

lemma value_at_serialize_datetime:
  "value_at path (serialize_datetime obj) = map_option serialize_datetime (value_at path obj)"
proof (induction path arbitrary: obj)
  case Nil
  show ?case by simp
next
  case (Cons i path)
  show ?case
  proof (cases obj)
    case (PyList items)
    then show ?thesis using Cons.IH by simp
  next
    case (PyDict items)
    then show ?thesis using Cons.IH by (simp add: case_prod_beta)
  qed simp_all
qed

lemma serialize_datetime_plain: "is_plain x \<Longrightarrow> serialize_datetime x = x"
  by (cases x) simp_all

text \<open>
  C9 (as amended). Every \<open>datetime\<close> value reached through list items and dict values, at
  any depth, is replaced by its \<open>isoformat()\<close> text, and every value there that is
  \<open>None\<close>, a bool, a number or a string is left as it is.
\<close>

theorem serialize_datetime_nested:
  "(value_at path obj = Some (PyDatetime d) \<longrightarrow>
      value_at path (serialize_datetime obj) = Some (PyStr (isoformat d))) \<and>
   (value_at path obj = Some x \<and> is_plain x \<longrightarrow>
      value_at path (serialize_datetime obj) = Some x)"
  by (simp add: value_at_serialize_datetime serialize_datetime_plain)

theorem serialize_datetime_nested_witness:
  "value_at [0, 1, 0]
     (PyList [PyDict [(PyStr (py ''id''), PyInt 7),
                      (PyStr (py ''seen''), PyList [PyDatetime new_year])]])
     = Some (PyDatetime new_year) \<and>
   value_at [0, 1, 0]
     (serialize_datetime
        (PyList [PyDict [(PyStr (py ''id''), PyInt 7),
                         (PyStr (py ''seen''), PyList [PyDatetime new_year])]]))
     = Some (PyStr (isoformat new_year)) \<and>
   value_at [0, 0]
     (PyList [PyDict [(PyStr (py ''id''), PyInt 7),
                      (PyStr (py ''seen''), PyList [PyDatetime new_year])]])
     = Some (PyInt 7) \<and> is_plain (PyInt 7) \<and>
   value_at [0, 0]
     (serialize_datetime
        (PyList [PyDict [(PyStr (py ''id''), PyInt 7),
                         (PyStr (py ''seen''), PyList [PyDatetime new_year])]]))
     = Some (PyInt 7)"
  using serialize_datetime_nested
    [of "[0, 1, 0]" "PyList [PyDict [(PyStr (py ''id''), PyInt 7),
                      (PyStr (py ''seen''), PyList [PyDatetime new_year])]]" new_year "PyInt 7"]
    serialize_datetime_nested
    [of "[0, 0]" "PyList [PyDict [(PyStr (py ''id''), PyInt 7),
                      (PyStr (py ''seen''), PyList [PyDatetime new_year])]]" new_year "PyInt 7"]
  by simp

text \<open>
  C9 as stated fails for a temporal value that is no \<open>datetime\<close>: a \<open>DATE\<close> column of a
  result row holds a \<open>datetime.date\<close>, which comes back as the same object, not as text.
\<close>

theorem serialize_datetime_date_counterexample:
  "value_at [0, 0]
     (serialize_datetime (PyList [PyDict [(PyStr (py ''day''), PyDate 2024 1 15)]]))
   = Some (PyDate 2024 1 15)"
  by simp

lemma serialize_datetime_twice:
  "serialize_datetime (serialize_datetime obj) = serialize_datetime obj"
  by (induction obj rule: serialize_datetime.induct) auto

lemma serialize_datetime_no_datetime: "serialize_datetime x \<noteq> PyDatetime d"
  by (cases x) simp_all

text \<open>
  C10 (as amended). Normalising twice gives what normalising once gives, for every value,
  and the output of one pass holds no \<open>datetime\<close> at any position reached through list
  items and dict values, whatever the depth.
\<close>

theorem serialize_datetime_idempotent:
  "serialize_datetime (serialize_datetime obj) = serialize_datetime obj \<and>
   value_at path (serialize_datetime obj) \<noteq> Some (PyDatetime d)"
  by (simp add: serialize_datetime_twice value_at_serialize_datetime
        serialize_datetime_no_datetime)

text \<open>
  The reason C10 gives, that the output never contains a temporal value, does not hold:
  a \<open>datetime.date\<close> is returned as it is, and so is a \<open>datetime\<close> that is an item of a
  tuple or a key of a dict. The second pass leaves them as the first did.
\<close>

theorem serialize_datetime_keeps_temporal_counterexample:
  "serialize_datetime (PyDate 2024 1 15) = PyDate 2024 1 15 \<and>
   serialize_datetime (PyTuple [PyDatetime new_year]) = PyTuple [PyDatetime new_year] \<and>
   serialize_datetime (PyDict [(PyDatetime new_year, PyInt 1)]) =
     PyDict [(PyDatetime new_year, PyInt 1)]"
  by simp

section \<open>File validation\<close>

lemma py_in_iff: "py_in needle hay \<longleftrightarrow> (\<exists>a b. hay = a @ needle @ b)"
proof (induction hay)
  case Nil
  show ?case by auto
next
  case (Cons c rest)
  show ?case
  proof
    assume "py_in needle (c # rest)"
    then consider "take (length needle) (c # rest) = needle" | "py_in needle rest"
      by auto
    then show "\<exists>a b. c # rest = a @ needle @ b"
    proof cases
      case 1
      then have "c # rest = [] @ needle @ drop (length needle) (c # rest)"
        by (metis append_Nil append_take_drop_id)
      then show ?thesis by blast
    next
      case 2
      then obtain a b where "rest = a @ needle @ b" using Cons.IH by blast
      then have "c # rest = (c # a) @ needle @ b" by simp
      then show ?thesis by blast
    qed
  next
    assume "\<exists>a b. c # rest = a @ needle @ b"
    then obtain a b where ab: "c # rest = a @ needle @ b" by blast
    show "py_in needle (c # rest)"
    proof (cases a)
      case Nil
      then have "take (length needle) (c # rest) = needle" using ab by simp
      then show ?thesis by simp
    next
      case (Cons a0 a')
      then have "rest = a' @ needle @ b" using ab by simp
      then have "py_in needle rest" using Cons.IH by blast
      then show ?thesis by simp
    qed
  qed
qed

lemma py_in_middle: "py_in needle (a @ needle @ b)"
  using py_in_iff by blast

lemma check_files_find:
  "check_files w files =
     (case find (\<lambda>p. \<not> os_path_exists w p \<and> Path_exists w p \<noteq> Inr True) files of
        None \<Rightarrow> None
      | Some p \<Rightarrow>
          (case Path_exists w p of
             Inl e \<Rightarrow> Some e
           | Inr found \<Rightarrow> Some (FileNotFoundError (not_found_message p))))"
  by (induction files) (auto split: sum.splits)

text \<open>
  C8 (as amended). Validation walks the input paths in order and stops at the first path
  for which \<open>os.path.exists\<close> is false and \<open>Path.exists\<close> does not answer true. If
  \<open>Path.exists\<close> answers false there, it raises \<open>FileNotFoundError\<close> about that path: the
  message contains the path verbatim and the name of the discovery tool. If \<open>Path.exists\<close>
  raises there, its error is what validation raises. A path is rejected as missing only
  when both checks fail; an input whose paths each pass one check is returned as the list
  of its paths.
\<close>

theorem validate_parquet_files_not_found:
  "validate_parquet_files w arg =
     (case find (\<lambda>p. \<not> os_path_exists w p \<and> Path_exists w p \<noteq> Inr True) (as_list arg) of
        None \<Rightarrow> Inr (as_list arg)
      | Some p \<Rightarrow>
          (case Path_exists w p of
             Inl e \<Rightarrow> Inl e
           | Inr found \<Rightarrow> Inl (FileNotFoundError (not_found_message p)))) \<and>
   py_in p (not_found_message p) \<and>
   py_in (py ''list_tables_in_directory'') (not_found_message p)"
proof -
  have "py_in p (py ''Parquet file not found: '' @ p @ ([10] @
     py ''Please check the file path and ensure the file exists. '' @
     py ''You may use '' @ [39] @ py ''list_tables_in_directory'' @ [39] @
     py '' to discover available parquet files.''))"
    by (rule py_in_middle)
  then have a: "py_in p (not_found_message p)"
    by (simp add: not_found_message_def)
  have "py_in (py ''list_tables_in_directory'')
     ((py ''Parquet file not found: '' @ p @ [10] @
       py ''Please check the file path and ensure the file exists. '' @
       py ''You may use '' @ [39]) @ py ''list_tables_in_directory'' @ ([39] @
       py '' to discover available parquet files.''))"
    by (rule py_in_middle)
  then have b: "py_in (py ''list_tables_in_directory'') (not_found_message p)"
    by (simp add: not_found_message_def)
  show ?thesis
    using a b
    by (simp add: validate_parquet_files_def check_files_find split: option.splits sum.splits)
qed

text \<open>
  C8 as stated fails for a missing path that comes after another missing path: of the two
  missing files \<open>/data/a.parquet\<close> and \<open>/data/b.parquet\<close> the error names the first, and
  the second is nowhere in its message.
\<close>

theorem validate_parquet_files_second_missing_counterexample:
  "validate_parquet_files (example_world (\<lambda>p. False) [] [] None)
      (PathList [py ''/data/a.parquet'', py ''/data/b.parquet'']) =
     Inl (FileNotFoundError (not_found_message (py ''/data/a.parquet''))) \<and>
   \<not> py_in (py ''/data/b.parquet'') (not_found_message (py ''/data/a.parquet''))"
  by code_simp

section \<open>The two shapes of the guard\<close>

lemma length_str_nat: "length (str_nat n) \<le> Suc n"
proof (induction n rule: str_nat.induct)
  case (1 n)
  show ?case
  proof (cases "n < 10")
    case True
    then show ?thesis by (subst str_nat.simps) simp
  next
    case False
    then have "length (str_nat (n div 10)) \<le> Suc (n div 10)" using 1 by simp
    moreover have "length (str_nat n) = Suc (length (str_nat (n div 10)))"
      using False by (subst str_nat.simps) simp
    ultimately show ?thesis using False by simp
  qed
qed

lemma length_str_int_nonneg: "0 \<le> i \<Longrightarrow> int (length (str_int i)) \<le> i + 1"
  using length_str_nat [of "nat i"] by (simp add: str_int_def)

lemma iterencode_py_optional: "iterencode level (py_optional v) = Inr (json_optional v)"
  by (cases v) (simp_all add: py_optional_def json_optional_def)

lemma str_int_5000: "str_int 5000 = py ''5000''"
  by (simp add: str_int_def py_def str_nat.simps [of 5000] str_nat.simps [of 500] str_nat.simps [of 50] str_nat.simps [of 5])

lemma encode_ascii_plain:
  "encode_basestring (py ''error'') = [34] @ py ''error'' @ [34]"
  "encode_basestring (py ''context'') = [34] @ py ''context'' @ [34]"
  "encode_basestring (py ''estimated_tokens'') = [34] @ py ''estimated_tokens'' @ [34]"
  "encode_basestring (py ''token_limit'') = [34] @ py ''token_limit'' @ [34]"
  "encode_basestring (py ''rows_returned'') = [34] @ py ''rows_returned'' @ [34]"
  "encode_basestring (py ''suggested_limit'') = [34] @ py ''suggested_limit'' @ [34]"
  "encode_basestring (py ''suggestion'') = [34] @ py ''suggestion'' @ [34]"
  "encode_basestring (py ''Result exceeds token budget'') = [34] @ py ''Result exceeds token budget'' @ [34]"
  by (simp_all add: encode_basestring_def py_def escape_char_def)

lemma newline_indent_simps:
  "newline_indent 0 = [10]"
  "newline_indent (Suc 0) = [10] @ py ''  ''"
  by (simp_all add: newline_indent_def py_def numeral_2_eq_2)

lemma json_dumps_token_warning:
  "json_dumps (token_warning loads payload context) =
     Inr (warning_text context (estimate_token_count payload)
            (json_optional (current_size_of loads payload))
            (json_optional (suggested_limit_of (current_size_of loads payload) (estimate_token_count payload)))
            (join [10] (suggestion_parts (suggested_limit_of (current_size_of loads payload) (estimate_token_count payload)))))"
  by (simp add: json_dumps_def token_warning_def Let_def iterencode_py_optional encode_ascii_plain
        newline_indent_simps warning_text_def TOKEN_LIMIT_def str_int_5000)

lemma escape_plain: "list_all plain_char s \<Longrightarrow> concat (map escape_char s) = s"
  by (induction s) (auto simp: plain_char_def escape_char_def)

lemma length_py: "length (py s) = length s"
  by (simp add: py_def)

lemma plain_parts:
  "list_all plain_char (py ''The query result is too large. Please adjust your query:'')"
  "list_all plain_char (py ''  '')"
  "list_all plain_char (py '' Reduce the LIMIT value'')"
  "list_all plain_char (py '' Filter rows with WHERE clauses to reduce result size'')"
  "list_all plain_char (py '' Select only necessary columns instead of SELECT *'')"
  "list_all plain_char (py '' Use aggregation (COUNT, SUM, AVG) instead of retrieving raw rows'')"
  "list_all plain_char (py ''query_parquet_files'')"
  by (simp_all add: py_def plain_char_def)

lemma escape_char_values: "escape_char 10 = [92, 110]" "escape_char 8226 = [8226]"
  by (simp_all add: escape_char_def)

lemma take_1_warning_text: "take 1 (warning_text context e rows cap tips) = py ''{''"
  by (simp add: warning_text_def py_def)

lemma length_warning_text_null:
  "length (warning_text (py ''query_parquet_files'') e (py ''null'') (py ''null'') (join [10] (suggestion_parts None)))
     = 466 + length (str_int e)"
  by (simp add: warning_text_def suggestion_parts_def encode_basestring_def
        escape_char_values escape_plain plain_parts length_py)

lemma current_size_of_brace:
  "take 1 payload = py ''{'' \<Longrightarrow> current_size_of loads payload = None"
  by (cases payload) (auto simp: current_size_of_def startswith_def py_def)

lemma enforce_over_budget:
  assumes "TOKEN_LIMIT < estimate_token_count payload"
  shows "enforce_token_limit loads payload context =
           json_dumps (token_warning loads payload context)"
  using assms by (simp add: enforce_token_limit_def Let_def)

lemma diagnostic_differs:
  assumes over: "TOKEN_LIMIT < estimate_token_count payload"
  shows "\<exists>text. enforce_token_limit loads payload (py ''query_parquet_files'') = Inr text \<and>
           text \<noteq> payload"
proof -
  let ?e = "estimate_token_count payload"
  let ?cs = "current_size_of loads payload"
  let ?sl = "suggested_limit_of ?cs ?e"
  let ?text = "warning_text (py ''query_parquet_files'') ?e (json_optional ?cs)
      (json_optional ?sl) (join [10] (suggestion_parts ?sl))"
  have run: "enforce_token_limit loads payload (py ''query_parquet_files'') = Inr ?text"
    using over by (simp add: enforce_over_budget json_dumps_token_warning)
  have "?text \<noteq> payload"
  proof
    assume same: "?text = payload"
    then have "take 1 payload = py ''{''"
      using take_1_warning_text by metis
    then have cs: "?cs = None" by (rule current_size_of_brace)
    have sl: "suggested_limit_of None ?e = None" by (simp add: suggested_limit_of_def)
    have "length payload = length ?text" using same by simp
    also have "\<dots> = 466 + length (str_int ?e)"
      by (simp only: cs sl json_optional_def option.case length_warning_text_null)
    finally have len: "int (length payload) = 466 + int (length (str_int ?e))" by simp
    have big: "5000 < ?e" using over by (simp add: TOKEN_LIMIT_def)
    then have "int (length (str_int ?e)) \<le> ?e + 1"
      by (intro length_str_int_nonneg) simp
    moreover have "?e = (int (length payload) + 2) div 3"
      by (simp add: estimate_token_count_def)
    ultimately show False using len big by linarith
  qed
  then show ?thesis using run by blast
qed

text \<open>
  C1. For the query tool's calls of the guard (context \<open>query_parquet_files\<close>), whatever
  the decoder does: a payload whose estimate is at most 5000 is returned unchanged; a
  payload whose estimate exceeds 5000 yields the serialized warning whose
  \<open>estimated_tokens\<close> is that estimate and whose \<open>token_limit\<close> is 5000, and that text is
  never the payload.
\<close>

theorem enforce_token_limit_shapes:
  "(estimate_token_count payload \<le> 5000 \<longrightarrow>
      enforce_token_limit loads payload (py ''query_parquet_files'') = Inr payload) \<and>
   (5000 < estimate_token_count payload \<longrightarrow>
      (\<exists>rows cap tips.
          enforce_token_limit loads payload (py ''query_parquet_files'') =
            json_dumps (PyDict
              [(PyStr (py ''error''), PyStr (py ''Result exceeds token budget'')),
               (PyStr (py ''context''), PyStr (py ''query_parquet_files'')),
               (PyStr (py ''estimated_tokens''), PyInt (estimate_token_count payload)),
               (PyStr (py ''token_limit''), PyInt 5000),
               (PyStr (py ''rows_returned''), rows),
               (PyStr (py ''suggested_limit''), cap),
               (PyStr (py ''suggestion''), PyStr tips)])) \<and>
      (\<exists>text. enforce_token_limit loads payload (py ''query_parquet_files'') = Inr text \<and>
          text \<noteq> payload))"
proof (intro conjI impI)
  assume "estimate_token_count payload \<le> 5000"
  then show "enforce_token_limit loads payload (py ''query_parquet_files'') = Inr payload"
    by (simp add: enforce_token_limit_def TOKEN_LIMIT_def Let_def)
next
  assume "5000 < estimate_token_count payload"
  then have over: "TOKEN_LIMIT < estimate_token_count payload"
    by (simp add: TOKEN_LIMIT_def)
  show "\<exists>rows cap tips.
          enforce_token_limit loads payload (py ''query_parquet_files'') =
            json_dumps (PyDict
              [(PyStr (py ''error''), PyStr (py ''Result exceeds token budget'')),
               (PyStr (py ''context''), PyStr (py ''query_parquet_files'')),
               (PyStr (py ''estimated_tokens''), PyInt (estimate_token_count payload)),
               (PyStr (py ''token_limit''), PyInt 5000),
               (PyStr (py ''rows_returned''), rows),
               (PyStr (py ''suggested_limit''), cap),
               (PyStr (py ''suggestion''), PyStr tips)])"
    unfolding enforce_over_budget [OF over] token_warning_def Let_def TOKEN_LIMIT_def
    by blast
  show "\<exists>text. enforce_token_limit loads payload (py ''query_parquet_files'') = Inr text \<and>
          text \<noteq> payload"
    using over by (rule diagnostic_differs)
qed

theorem enforce_token_limit_shapes_witness:
  "estimate_token_count (py ''[]'') \<le> 5000 \<and>
   enforce_token_limit (\<lambda>p. None) (py ''[]'') (py ''query_parquet_files'') = Inr (py ''[]'') \<and>
   5000 < estimate_token_count (replicate 15001 120) \<and>
   (\<exists>text. enforce_token_limit (\<lambda>p. None) (replicate 15001 120) (py ''query_parquet_files'') =
       Inr text \<and> text \<noteq> replicate 15001 120)"
proof -
  have a: "estimate_token_count (py ''[]'') \<le> 5000"
    by (simp add: estimate_token_count_def py_def)
  have b: "5000 < estimate_token_count (replicate 15001 120)"
    by (simp add: estimate_token_count_def)
  show ?thesis
    using a b enforce_token_limit_shapes [of "py ''[]''" "\<lambda>p. None"]
      enforce_token_limit_shapes [of "replicate 15001 120" "\<lambda>p. None"]
    by blast
qed


section \<open>Relation names are unique\<close>

lemma register_views_names:
  "register_views w conn files acc = Inr (conn', names) \<Longrightarrow>
     names = assign_names (map (Path_stem w) files) acc"
  by (induction files arbitrary: conn acc) (auto simp: Let_def split: sum.splits)

lemma unique_table_name_fresh: "unique_table_name b t c ns \<notin> set ns"
  by (induction b t c ns rule: unique_table_name.induct)
     (subst unique_table_name.simps, simp)

lemma assign_names_length: "length (assign_names bs acc) = length acc + length bs"
  by (induction bs arbitrary: acc) simp_all

lemma assign_names_distinct: "distinct acc \<Longrightarrow> distinct (assign_names bs acc)"
  by (induction bs arbitrary: acc) (simp_all add: unique_table_name_fresh)

lemma unique_table_name_walk:
  assumes "\<forall>i. j \<le> i \<and> i < m \<longrightarrow> suffixed b i \<in> set ns"
    and "suffixed b m \<notin> set ns" and "j \<le> m"
  shows "unique_table_name b (suffixed b j) (j + 1) ns = suffixed b m"
  using assms
proof (induction "m - j" arbitrary: j)
  case 0
  then have "j = m" by simp
  then show ?case using "0.prems" by (subst unique_table_name.simps) simp
next
  case (Suc d)
  then have lt: "j < m" by simp
  then have "suffixed b j \<in> set ns" using Suc.prems by simp
  then have "unique_table_name b (suffixed b j) (j + 1) ns =
      unique_table_name b (suffixed b (j + 1)) (j + 1 + 1) ns"
    by (subst unique_table_name.simps) (simp add: suffixed_def)
  also have "\<dots> = suffixed b m"
    using Suc.hyps Suc.prems lt by (intro Suc.hyps(1)) auto
  finally show ?case .
qed


lemma str_nat_digits: "c \<in> set (str_nat n) \<Longrightarrow> 48 \<le> c \<and> c \<le> 57"
proof (induction n rule: str_nat.induct)
  case (1 n)
  show ?case
  proof (cases "n < 10")
    case True
    then show ?thesis using "1.prems" by (simp add: str_nat.simps [of n])
  next
    case False
    then have "c \<in> set (str_nat (n div 10)) \<or> c = 48 + n mod 10"
      using "1.prems" by (auto simp: str_nat.simps [of n])
    then show ?thesis using "1.IH" False by auto
  qed
qed

lemma split_at_last:
  "x \<notin> set d \<Longrightarrow> x \<notin> set d' \<Longrightarrow> a @ x # d = a' @ x # d' \<Longrightarrow> a = a' \<and> d = d'"
proof (induction a arbitrary: a')
  case Nil
  then show ?case by (cases a') auto
next
  case (Cons z zs)
  show ?case
  proof (cases a')
    case Nil
    then show ?thesis using Cons.prems by auto
  next
    case (Cons y ys)
    then have "zs @ x # d = ys @ x # d'" "z = y" using Cons.prems by simp_all
    then show ?thesis using Cons.IH [of ys] Cons.prems(1,2) Cons by simp
  qed
qed

lemma underscore_split:
  assumes "a @ py ''_'' @ str_nat k = a' @ py ''_'' @ str_nat k'"
  shows "a = a' \<and> k = k'"
proof -
  have u: "py ''_'' = [95]" by (simp add: py_def)
  have n: "95 \<notin> set (str_nat k)" "95 \<notin> set (str_nat k')"
    using str_nat_digits [of 95] by auto
  have "a @ 95 # str_nat k = a' @ 95 # str_nat k'"
    using assms by (simp add: u)
  then have "a = a' \<and> str_nat k = str_nat k'"
    using n by (rule split_at_last [rotated 2])
  then show ?thesis by (simp add: str_nat_inj)
qed

lemma suffixed_inj:
  assumes ni: "\<forall>s\<in>set stems. \<forall>s'\<in>set stems. \<forall>k. 1 \<le> k \<longrightarrow> s' \<noteq> s @ py ''_'' @ str_nat k"
    and "s \<in> set stems" "s' \<in> set stems" and eq: "suffixed s k = suffixed s' k'"
  shows "s = s' \<and> k = k'"
proof (cases "k = 0")
  case k: True
  show ?thesis
  proof (cases "k' = 0")
    case True
    then show ?thesis using k eq by (simp add: suffixed_def)
  next
    case False
    then have "s = s' @ py ''_'' @ str_nat k'" "1 \<le> k'" using k eq by (simp_all add: suffixed_def)
    then show ?thesis using ni assms(2,3) by blast
  qed
next
  case k: False
  show ?thesis
  proof (cases "k' = 0")
    case True
    then have "s' = s @ py ''_'' @ str_nat k" "1 \<le> k" using k eq by (simp_all add: suffixed_def)
    then show ?thesis using ni assms(2,3) by blast
  next
    case False
    then have "s @ py ''_'' @ str_nat k = s' @ py ''_'' @ str_nat k'"
      using k eq by (simp add: suffixed_def)
    then show ?thesis by (rule underscore_split)
  qed
qed

lemma occurrence_exists:
  "i < count_list xs b \<Longrightarrow> \<exists>p<length xs. xs ! p = b \<and> count_list (take p xs) b = i"
proof (induction xs rule: rev_induct)
  case Nil
  then show ?case by simp
next
  case (snoc y ys)
  show ?case
  proof (cases "i < count_list ys b")
    case True
    then obtain p where "p < length ys" "ys ! p = b" "count_list (take p ys) b = i"
      using snoc.IH by blast
    then have "p < length (ys @ [y]) \<and> (ys @ [y]) ! p = b \<and> count_list (take p (ys @ [y])) b = i"
      by (simp add: nth_append)
    then show ?thesis by blast
  next
    case False
    then have "y = b" "i = count_list ys b" using snoc.prems by (auto split: if_splits)
    then have "length ys < length (ys @ [y]) \<and> (ys @ [y]) ! length ys = b \<and>
        count_list (take (length ys) (ys @ [y])) b = i"
      by simp
    then show ?thesis by blast
  qed
qed

lemma occurrence_less:
  assumes "p < length xs" "xs ! p = b"
  shows "count_list (take p xs) b < count_list xs b"
proof -
  have "xs = take p xs @ b # drop (Suc p) xs"
    using assms id_take_nth_drop [of p xs] by simp
  then have "count_list xs b = count_list (take p xs @ b # drop (Suc p) xs) b"
    by simp
  then show ?thesis by (simp only: count_list_append) simp
qed

lemma spec_table_names_snoc:
  "spec_table_names (pre @ [b]) = spec_table_names pre @ [suffixed b (count_list pre b)]"
  by (simp add: spec_table_names_def nth_append)

lemma in_spec_table_names:
  "x \<in> set (spec_table_names stems) \<longleftrightarrow>
     (\<exists>p<length stems. x = suffixed (stems ! p) (count_list (take p stems) (stems ! p)))"
  by (auto simp: spec_table_names_def)

lemma next_name_spec:
  assumes ni: "\<forall>s\<in>set (b # pre). \<forall>s'\<in>set (b # pre). \<forall>k. 1 \<le> k \<longrightarrow> s' \<noteq> s @ py ''_'' @ str_nat k"
  shows "unique_table_name b b 1 (spec_table_names pre) = suffixed b (count_list pre b)"
proof -
  let ?ns = "spec_table_names pre"
  let ?m = "count_list pre b"
  have present: "\<forall>i. 0 \<le> i \<and> i < ?m \<longrightarrow> suffixed b i \<in> set ?ns"
  proof (intro allI impI)
    fix i assume "0 \<le> i \<and> i < ?m"
    then have "i < count_list pre b" by simp
    then obtain p where p: "p < length pre" "pre ! p = b" "count_list (take p pre) b = i"
      using occurrence_exists [of i pre b] by blast
    have "suffixed b i = suffixed (pre ! p) (count_list (take p pre) (pre ! p))"
      using p by simp
    then show "suffixed b i \<in> set ?ns"
      using p(1) in_spec_table_names [of "suffixed b i" pre] by blast
  qed
  have absent: "suffixed b ?m \<notin> set ?ns"
  proof
    assume "suffixed b ?m \<in> set ?ns"
    then obtain p where p: "p < length pre"
      and eq: "suffixed b ?m = suffixed (pre ! p) (count_list (take p pre) (pre ! p))"
      using in_spec_table_names [of "suffixed b ?m" pre] by blast
    have mem: "b \<in> set (b # pre)" "pre ! p \<in> set (b # pre)" using p by simp_all
    have "b = pre ! p \<and> ?m = count_list (take p pre) (pre ! p)"
      by (rule suffixed_inj [OF ni mem eq])
    then have "pre ! p = b" "count_list (take p pre) b = ?m" by auto
    then show False using occurrence_less [OF p, of b] by simp
  qed
  have "unique_table_name b (suffixed b 0) (0 + 1) ?ns = suffixed b ?m"
    by (rule unique_table_name_walk [OF present absent]) simp
  then show ?thesis by (simp add: suffixed_def)
qed

lemma assign_names_spec:
  assumes "\<forall>s\<in>set (pre @ bs). \<forall>s'\<in>set (pre @ bs). \<forall>k. 1 \<le> k \<longrightarrow> s' \<noteq> s @ py ''_'' @ str_nat k"
  shows "assign_names bs (spec_table_names pre) = spec_table_names (pre @ bs)"
  using assms
proof (induction bs arbitrary: pre)
  case Nil
  then show ?case by simp
next
  case (Cons b bs)
  have "\<forall>s\<in>set (b # pre). \<forall>s'\<in>set (b # pre). \<forall>k. 1 \<le> k \<longrightarrow> s' \<noteq> s @ py ''_'' @ str_nat k"
    using Cons.prems by simp
  then have step: "unique_table_name b b 1 (spec_table_names pre) = suffixed b (count_list pre b)"
    by (rule next_name_spec)
  have "assign_names (b # bs) (spec_table_names pre) = assign_names bs (spec_table_names (pre @ [b]))"
    using step by (simp add: spec_table_names_snoc)
  also have "\<dots> = spec_table_names ((pre @ [b]) @ bs)"
    using Cons.prems by (intro Cons.IH) simp
  finally show ?case by simp
qed

lemma unique_table_name_least:
  "(unique_table_name b t c ns = t \<and> t \<notin> set ns) \<or>
   (t \<in> set ns \<and>
    (\<exists>m\<ge>c. unique_table_name b t c ns = b @ py ''_'' @ str_nat m \<and>
        b @ py ''_'' @ str_nat m \<notin> set ns \<and>
        (\<forall>i. c \<le> i \<and> i < m \<longrightarrow> b @ py ''_'' @ str_nat i \<in> set ns)))"
proof (induction b t c ns rule: unique_table_name.induct)
  case (1 b t c ns)
  show ?case
  proof (cases "t \<in> set ns")
    case False
    then have "unique_table_name b t c ns = t"
      by (subst unique_table_name.simps) simp
    then show ?thesis using False by simp
  next
    case True
    let ?t' = "b @ py ''_'' @ str_nat c"
    have eq: "unique_table_name b t c ns = unique_table_name b ?t' (c + 1) ns"
      using True by (subst unique_table_name.simps) simp
    from "1.IH" [OF True] consider
      (stop) "unique_table_name b ?t' (c + 1) ns = ?t'" "?t' \<notin> set ns"
      | (go) m where "?t' \<in> set ns" "c + 1 \<le> m"
          "unique_table_name b ?t' (c + 1) ns = b @ py ''_'' @ str_nat m"
          "b @ py ''_'' @ str_nat m \<notin> set ns"
          "\<forall>i. c + 1 \<le> i \<and> i < m \<longrightarrow> b @ py ''_'' @ str_nat i \<in> set ns"
      by blast
    then show ?thesis
    proof cases
      case stop
      then have "c \<le> c \<and> unique_table_name b t c ns = b @ py ''_'' @ str_nat c \<and>
          b @ py ''_'' @ str_nat c \<notin> set ns \<and>
          (\<forall>i. c \<le> i \<and> i < c \<longrightarrow> b @ py ''_'' @ str_nat i \<in> set ns)"
        using eq by auto
      then show ?thesis using True by blast
    next
      case go
      have "b @ py ''_'' @ str_nat i \<in> set ns" if "c \<le> i \<and> i < m" for i
      proof (cases "i = c")
        case True
        then show ?thesis using go(1) by simp
      next
        case False
        then have "c + 1 \<le> i \<and> i < m" using that by simp
        then show ?thesis using go(5) by blast
      qed
      then have "c \<le> m \<and> unique_table_name b t c ns = b @ py ''_'' @ str_nat m \<and>
          b @ py ''_'' @ str_nat m \<notin> set ns \<and>
          (\<forall>i. c \<le> i \<and> i < m \<longrightarrow> b @ py ''_'' @ str_nat i \<in> set ns)"
        using go(2,3,4) eq by simp
      then show ?thesis using True by blast
    qed
  qed
qed

lemma unique_table_name_rule:
  "\<exists>k. unique_table_name b b 1 ns = suffixed b k \<and> suffixed b k \<notin> set ns \<and>
       (\<forall>j<k. suffixed b j \<in> set ns)"
proof -
  from unique_table_name_least [of b b 1 ns] consider
    (free) "unique_table_name b b 1 ns = b" "b \<notin> set ns"
    | (taken) m where "b \<in> set ns" "1 \<le> m"
        "unique_table_name b b 1 ns = b @ py ''_'' @ str_nat m"
        "b @ py ''_'' @ str_nat m \<notin> set ns"
        "\<forall>i. 1 \<le> i \<and> i < m \<longrightarrow> b @ py ''_'' @ str_nat i \<in> set ns"
    by blast
  then show ?thesis
  proof cases
    case free
    then have "unique_table_name b b 1 ns = suffixed b 0 \<and> suffixed b 0 \<notin> set ns \<and>
        (\<forall>j<0. suffixed b j \<in> set ns)"
      by (simp add: suffixed_def)
    then show ?thesis by blast
  next
    case taken
    have "suffixed b j \<in> set ns" if "j < m" for j
    proof (cases "j = 0")
      case True
      then show ?thesis using taken(1) by (simp add: suffixed_def)
    next
      case False
      then have "1 \<le> j \<and> j < m" using that by simp
      then have "b @ py ''_'' @ str_nat j \<in> set ns" using taken(5) by blast
      then show ?thesis using False by (simp add: suffixed_def)
    qed
    then have "unique_table_name b b 1 ns = suffixed b m \<and> suffixed b m \<notin> set ns \<and>
        (\<forall>j<m. suffixed b j \<in> set ns)"
      using taken(2,3,4) by (simp add: suffixed_def)
    then show ?thesis by blast
  qed
qed

lemma assign_names_take: "take (length acc) (assign_names bs acc) = acc"
proof (induction bs arbitrary: acc)
  case Nil
  show ?case by simp
next
  case (Cons b bs)
  let ?x = "unique_table_name b b 1 acc"
  let ?A = "assign_names bs (acc @ [?x])"
  have "take (length acc) ?A = take (length acc) (take (length (acc @ [?x])) ?A)"
    by (simp add: min_def)
  also have "\<dots> = take (length acc) (acc @ [?x])"
    by (simp only: Cons.IH)
  also have "\<dots> = acc" by simp
  finally show ?case by simp
qed

lemma assign_names_nth_first:
  "assign_names (b # bs) acc ! length acc = unique_table_name b b 1 acc"
proof -
  let ?x = "unique_table_name b b 1 acc"
  let ?A = "assign_names bs (acc @ [?x])"
  have "take (length (acc @ [?x])) ?A = acc @ [?x]" by (rule assign_names_take)
  then have "take (Suc (length acc)) ?A ! length acc = ?x" by simp
  then show ?thesis by simp
qed

lemma assign_names_rule:
  "i < length bs \<Longrightarrow>
     \<exists>k. assign_names bs acc ! (length acc + i) = suffixed (bs ! i) k \<and>
         suffixed (bs ! i) k \<notin> set (take (length acc + i) (assign_names bs acc)) \<and>
         (\<forall>j<k. suffixed (bs ! i) j \<in> set (take (length acc + i) (assign_names bs acc)))"
proof (induction bs arbitrary: acc i)
  case Nil
  then show ?case by simp
next
  case (Cons b bs)
  show ?case
  proof (cases i)
    case 0
    have n: "assign_names (b # bs) acc ! length acc = unique_table_name b b 1 acc"
      by (rule assign_names_nth_first)
    have t: "take (length acc) (assign_names (b # bs) acc) = acc"
      by (rule assign_names_take)
    show ?thesis
      using unique_table_name_rule [of b acc] by (simp add: 0 n t del: assign_names.simps)
  next
    case (Suc i')
    then have "i' < length bs" using Cons.prems by simp
    from Cons.IH [OF this, of "acc @ [unique_table_name b b 1 acc]"]
    show ?thesis by (simp add: Suc)
  qed
qed

lemma three_events:
  "register_views (example_world (\<lambda>p. True) [] [] None) ()
      [py ''/data/events.parquet'', py ''/data/events.parquet'', py ''/logs/events.parquet''] []
    = Inr ((), [py ''events'', py ''events_1'', py ''events_2''])"
  by code_simp

lemma three_events_stems:
  "map (Path_stem (example_world (\<lambda>p. True) [] [] None))
      [py ''/data/events.parquet'', py ''/data/events.parquet'', py ''/logs/events.parquet'']
    = [py ''events'', py ''events'', py ''events'']"
  by code_simp

text \<open>
  C5 (as amended). When all views are created, there are as many relation names as
  sources, in input order, and no two of them are equal. The name of a source is its stem
  if no earlier source got that name, and otherwise the stem followed by \<open>_k\<close> for the
  smallest \<open>k \<ge> 1\<close> such that no earlier source got that name (\<open>suffixed stem 0\<close> is the
  stem itself). If no stem of the input is another stem of the input followed by \<open>_k\<close>
  for some \<open>k \<ge> 1\<close>, the names are those of the specification: the stem for the first
  source with that stem, and the stem followed by \<open>_k\<close> for the source that has \<open>k\<close>
  earlier sources with the same stem.
\<close>

theorem register_views_names_unique:
  assumes "register_views w conn files [] = Inr (conn', names)"
  shows "length names = length files \<and> distinct names \<and>
     (\<forall>i<length files.
        \<exists>k. names ! i = suffixed (Path_stem w (files ! i)) k \<and>
            names ! i \<notin> set (take i names) \<and>
            (\<forall>j<k. suffixed (Path_stem w (files ! i)) j \<in> set (take i names))) \<and>
     ((\<forall>s\<in>set (map (Path_stem w) files). \<forall>s'\<in>set (map (Path_stem w) files).
          \<forall>k. 1 \<le> k \<longrightarrow> s' \<noteq> s @ py ''_'' @ str_nat k) \<longrightarrow>
      names = spec_table_names (map (Path_stem w) files))"
proof -
  have names: "names = assign_names (map (Path_stem w) files) []"
    using assms by (rule register_views_names)
  have e: "spec_table_names [] = []" by (simp add: spec_table_names_def)
  have "length names = length files"
    by (simp add: names assign_names_length)
  moreover have "distinct names"
    by (simp add: names assign_names_distinct)
  moreover have "\<forall>i<length files.
        \<exists>k. names ! i = suffixed (Path_stem w (files ! i)) k \<and>
            names ! i \<notin> set (take i names) \<and>
            (\<forall>j<k. suffixed (Path_stem w (files ! i)) j \<in> set (take i names))"
  proof (intro allI impI)
    fix i assume i: "i < length files"
    then have "i < length (map (Path_stem w) files)" by simp
    from assign_names_rule [OF this, of "[]"]
    obtain k where "names ! i = suffixed (Path_stem w (files ! i)) k"
      "suffixed (Path_stem w (files ! i)) k \<notin> set (take i names)"
      "\<forall>j<k. suffixed (Path_stem w (files ! i)) j \<in> set (take i names)"
      using i by (auto simp: names)
    then have "names ! i = suffixed (Path_stem w (files ! i)) k \<and>
            names ! i \<notin> set (take i names) \<and>
            (\<forall>j<k. suffixed (Path_stem w (files ! i)) j \<in> set (take i names))"
      by simp
    then show "\<exists>k. names ! i = suffixed (Path_stem w (files ! i)) k \<and>
            names ! i \<notin> set (take i names) \<and>
            (\<forall>j<k. suffixed (Path_stem w (files ! i)) j \<in> set (take i names))"
      by (rule exI)
  qed
  moreover have "names = spec_table_names (map (Path_stem w) files)"
    if "\<forall>s\<in>set (map (Path_stem w) files). \<forall>s'\<in>set (map (Path_stem w) files).
          \<forall>k. 1 \<le> k \<longrightarrow> s' \<noteq> s @ py ''_'' @ str_nat k"
    using assign_names_spec [of "[]" "map (Path_stem w) files"] that
    by (simp only: names e append_Nil)
  ultimately show ?thesis by blast
qed

theorem register_views_names_unique_witness:
  "register_views (example_world (\<lambda>p. True) [] [] None) ()
      [py ''/data/events.parquet'', py ''/data/events.parquet'', py ''/logs/events.parquet''] []
     = Inr ((), [py ''events'', py ''events_1'', py ''events_2'']) \<and>
   length [py ''events'', py ''events_1'', py ''events_2''] = (3::nat) \<and>
   distinct [py ''events'', py ''events_1'', py ''events_2''] \<and>
   [py ''events'', py ''events_1'', py ''events_2''] =
     spec_table_names [py ''events'', py ''events'', py ''events'']"
proof -
  have free: "\<forall>s\<in>set [py ''events'', py ''events'', py ''events''].
      \<forall>s'\<in>set [py ''events'', py ''events'', py ''events''].
        \<forall>k. 1 \<le> k \<longrightarrow> s' \<noteq> s @ py ''_'' @ str_nat k"
    by (simp add: py_def)
  note r = register_views_names_unique [OF three_events]
  have s: "[py ''events'', py ''events_1'', py ''events_2''] =
      spec_table_names [py ''events'', py ''events'', py ''events'']"
    using r free unfolding three_events_stems by blast
  have d: "distinct [py ''events'', py ''events_1'', py ''events_2'']"
    using r by blast
  have l: "length [py ''events'', py ''events_1'', py ''events_2''] = (3::nat)"
    by simp
  show ?thesis
    using three_events s d l by blast
qed

text \<open>
  The sources \<open>a.parquet\<close>, \<open>a.parquet\<close>, \<open>a_1.parquet\<close> have the stems \<open>a\<close>, \<open>a\<close>, \<open>a_1\<close>.
  The third source shares its stem with no other, and its relation is named \<open>a_1_1\<close>; the
  scheme of the specification names two relations \<open>a_1\<close>.
\<close>

theorem register_views_colliding_counterexample:
  "register_views (example_world (\<lambda>p. True) [] [] None) ()
      [py ''a.parquet'', py ''a.parquet'', py ''a_1.parquet''] []
     = Inr ((), [py ''a'', py ''a_1'', py ''a_1_1'']) \<and>
   map (Path_stem (example_world (\<lambda>p. True) [] [] None))
      [py ''a.parquet'', py ''a.parquet'', py ''a_1.parquet'']
     = [py ''a'', py ''a'', py ''a_1''] \<and>
   spec_table_names [py ''a'', py ''a'', py ''a_1''] = [py ''a'', py ''a_1'', py ''a_1'']"
  by code_simp


section \<open>A missing file\<close>

lemma py_in_appendI1: "py_in needle a \<Longrightarrow> py_in needle (a @ b)"
proof -
  assume "py_in needle a"
  then obtain x y where "a = x @ needle @ y" using py_in_iff by blast
  then have "a @ b = x @ needle @ (y @ b)" by simp
  then show ?thesis using py_in_iff by blast
qed

lemma py_in_appendI2: "py_in needle b \<Longrightarrow> py_in needle (a @ b)"
proof -
  assume "py_in needle b"
  then obtain x y where "b = x @ needle @ y" using py_in_iff by blast
  then have "a @ b = (a @ x) @ needle @ y" by simp
  then show ?thesis using py_in_iff by blast
qed

lemma lower_append: "lower (a @ b) = lower a @ lower b"
  by (simp add: lower_def)

lemma table_in_not_found_message:
  "py_in (py ''table'') (lower (not_found_message file_path))"
proof -
  have "lower (py ''list_tables_in_directory'') =
      py ''list_'' @ py ''table'' @ py ''s_in_directory''"
    by (simp add: lower_def py_def)
  then have h: "py_in (py ''table'') (lower (py ''list_tables_in_directory''))"
    by (simp only: py_in_middle)
  show ?thesis
    unfolding not_found_message_def lower_append
    apply (rule py_in_appendI2)
    apply (rule py_in_appendI2)
    apply (rule py_in_appendI2)
    apply (rule py_in_appendI2)
    apply (rule py_in_appendI2)
    apply (rule py_in_appendI2)
    apply (rule py_in_appendI1)
    apply (rule h)
    done
qed

lemma except_unbound:
  assumes "py_in (py ''table'') (lower (str_exn e))"
  shows "query_parquet_files_except w query e None = Inl unbound_table_names"
  using assms by (simp add: query_parquet_files_except_def Let_def)

text \<open>
  C2. Whenever validation stops at an input path that fails both existence checks (the
  first path that \<open>os.path.exists\<close> denies and \<open>Path.exists\<close> does not confirm, with
  \<open>Path.exists\<close> answering false), the query tool raises
  \<open>UnboundLocalError\<close> to its caller, whatever the query and the row cap: validation
  raises before \<open>table_names\<close> is assigned, the message of its error contains the word
  \<open>table\<close> (in the name of the discovery tool), and both branches of the handler that
  this word can select read \<open>table_names\<close>.
\<close>

theorem query_parquet_files_missing_file_raises:
  assumes "find (\<lambda>p. \<not> os_path_exists w p \<and> Path_exists w p \<noteq> Inr True)
             (as_list parquet_files) = Some file_path"
    and "Path_exists w file_path = Inr False"
  shows "query_parquet_files w parquet_files query limit = Inl unbound_table_names"
proof -
  have "validate_parquet_files w parquet_files =
      Inl (FileNotFoundError (not_found_message file_path))"
    using assms by (simp add: validate_parquet_files_def check_files_find)
  then have "query_parquet_files_try w parquet_files query limit =
      Inl (FileNotFoundError (not_found_message file_path), None)"
    by (simp add: query_parquet_files_try_def)
  moreover have "query_parquet_files_except w query
      (FileNotFoundError (not_found_message file_path)) None = Inl unbound_table_names"
    by (rule except_unbound) (simp add: table_in_not_found_message)
  ultimately show ?thesis by (simp add: query_parquet_files_def)
qed

theorem query_parquet_files_missing_file_raises_witness:
  "find (\<lambda>p. \<not> os_path_exists (example_world (\<lambda>p. False) [] [] None) p \<and>
              Path_exists (example_world (\<lambda>p. False) [] [] None) p \<noteq> Inr True)
        (as_list (OnePath (py ''/data/missing.parquet''))) = Some (py ''/data/missing.parquet'') \<and>
   Path_exists (example_world (\<lambda>p. False) [] [] None) (py ''/data/missing.parquet'') =
     Inr False \<and>
   query_parquet_files (example_world (\<lambda>p. False) [] [] None)
      (OnePath (py ''/data/missing.parquet'')) (py ''SELECT 1'') 50 =
     Inl (UnboundLocalError (py ''cannot access local variable '' @ [39] @ py ''table_names'' @
       [39] @ py '' where it is not associated with a value''))"
proof -
  have missing: "find (\<lambda>p. \<not> os_path_exists (example_world (\<lambda>p. False) [] [] None) p \<and>
              Path_exists (example_world (\<lambda>p. False) [] [] None) p \<noteq> Inr True)
        (as_list (OnePath (py ''/data/missing.parquet''))) = Some (py ''/data/missing.parquet'')"
    by (simp add: example_world_def)
  have absent: "Path_exists (example_world (\<lambda>p. False) [] [] None)
      (py ''/data/missing.parquet'') = Inr False"
    by (simp add: example_world_def)
  show ?thesis
    using missing absent
      query_parquet_files_missing_file_raises [OF missing absent, of "py ''SELECT 1''" 50]
    by (simp add: unbound_table_names_def)
qed

section \<open>An empty result\<close>

lemma iterencode_list_bracket:
  "iterencode level (PyList rows) = Inr out \<Longrightarrow> take 1 out = py ''[''"
  by (auto simp: py_def split: if_splits sum.splits)

text \<open>
  C6. When the files are there, the views are created and the query runs and gives no
  row, the tool returns the text \<open>Query executed successfully but returned no results.\<close>,
  which is not the serialization of any list of records (that of the empty list is \<open>[]\<close>).
\<close>

theorem query_parquet_files_no_results:
  assumes "validate_parquet_files w parquet_files = Inr files"
    and "duckdb_connect w = Inr conn"
    and "register_views w conn files [] = Inr (conn1, table_names)"
    and "execute w conn1 query = Inr conn2"
    and "fetchall w conn2 = Inr []"
  shows "query_parquet_files w parquet_files query limit =
           Inr (py ''Query executed successfully but returned no results.'') \<and>
         json_dumps (PyList rows) \<noteq>
           Inr (py ''Query executed successfully but returned no results.'') \<and>
         json_dumps (PyList []) = Inr (py ''[]'')"
proof -
  have "query_parquet_files_try w parquet_files query limit =
      Inr (py ''Query executed successfully but returned no results.'')"
    using assms by (simp add: query_parquet_files_try_def)
  then have a: "query_parquet_files w parquet_files query limit =
      Inr (py ''Query executed successfully but returned no results.'')"
    by (simp add: query_parquet_files_def)
  have b: "json_dumps (PyList rows) \<noteq>
      Inr (py ''Query executed successfully but returned no results.'')"
  proof
    assume "json_dumps (PyList rows) =
      Inr (py ''Query executed successfully but returned no results.'')"
    then have "take 1 (py ''Query executed successfully but returned no results.'') = py ''[''"
      unfolding json_dumps_def by (rule iterencode_list_bracket)
    then show False by (simp add: py_def)
  qed
  have c: "json_dumps (PyList []) = Inr (py ''[]'')"
    by (simp add: json_dumps_def)
  show ?thesis using a b c by blast
qed

theorem query_parquet_files_no_results_witness:
  "query_parquet_files (example_world (\<lambda>p. True) [py ''id''] [] None)
      (PathList [py ''/data/events.parquet'']) (py ''SELECT id FROM events WHERE id < 0'') 50 =
     Inr (py ''Query executed successfully but returned no results.'') \<and>
   json_dumps (PyList []) = Inr (py ''[]'')"
proof -
  let ?w = "example_world (\<lambda>p. True) [py ''id''] [] None"
  have 1: "validate_parquet_files ?w (PathList [py ''/data/events.parquet'']) =
      Inr [py ''/data/events.parquet'']"
    by (simp add: validate_parquet_files_def example_world_def)
  have 2: "duckdb_connect ?w = Inr ()" by (simp add: example_world_def)
  have 3: "register_views ?w () [py ''/data/events.parquet''] [] = Inr ((), [py ''events''])"
    by code_simp
  have 4: "execute ?w () (py ''SELECT id FROM events WHERE id < 0'') = Inr ()"
    by (simp add: example_world_def)
  have 5: "fetchall ?w () = Inr []" by (simp add: example_world_def)
  show ?thesis
    using query_parquet_files_no_results [OF 1 2 3 4 5, of 50 "[]"] by simp
qed


section \<open>The row cap\<close>












section \<open>The suggested row cap\<close>

text \<open>
  The rounding of \<open>binary64\<close> is off by at most one part in \<open>2 ^ 53\<close>, so the five
  roundings of \<open>current_size * ratio * 0.8\<close> (the row count, the factor 0.8, the quotient
  and the two products) leave the result within six parts in \<open>2 ^ 53\<close> of
  \<open>4000 * n / e\<close>.
\<close>

lemma bit_length_bounds:
  "0 < i \<Longrightarrow> 1 \<le> bit_length i \<and> 2 ^ nat (bit_length i - 1) \<le> i \<and> i < 2 ^ nat (bit_length i)"
proof (induction i rule: bit_length.induct)
  case (1 i)
  show ?case
  proof (cases "i = 1")
    case True
    then show ?thesis
      by (simp add: bit_length.simps [of 1] bit_length.simps [of 0])
  next
    case False
    then have h: "0 < i div 2" using "1.prems" by simp
    have ih: "1 \<le> bit_length (i div 2) \<and> 2 ^ nat (bit_length (i div 2) - 1) \<le> i div 2 \<and>
        i div 2 < 2 ^ nat (bit_length (i div 2))"
      using "1.IH" h "1.prems" by simp
    have bl: "bit_length i = 1 + bit_length (i div 2)"
      using "1.prems" by (subst bit_length.simps) simp
    have ge: "1 \<le> bit_length (i div 2)" using ih by blast
    have n: "nat (bit_length i - 1) = Suc (nat (bit_length (i div 2) - 1))"
      "nat (bit_length i) = Suc (nat (bit_length (i div 2)))"
      using ge bl by linarith+
    have "2 * 2 ^ nat (bit_length (i div 2) - 1) \<le> i" using ih by linarith
    moreover have "i < 2 * 2 ^ nat (bit_length (i div 2))" using ih by linarith
    ultimately show ?thesis using n bl ih by simp
  qed
qed

lemma round_half_even_error: "\<bar>of_int (round_half_even x) - x\<bar> \<le> 1 / 2"
proof -
  have "of_int \<lfloor>x\<rfloor> \<le> x" "x < of_int \<lfloor>x\<rfloor> + 1" by linarith+
  then show ?thesis
    by (auto simp: round_half_even_def Let_def)
qed


lemma two_powi_nat: "0 \<le> k \<Longrightarrow> (2::rat) powi k = of_int (2 ^ nat k)"
  by (simp add: power_int_def)

lemma floor_log2_bounds:
  assumes "0 < x"
  shows "2 powi (floor_log2 x) \<le> x \<and> x < 2 powi (floor_log2 x + 1)"
proof -
  obtain p q where pq: "quotient_of x = (p, q)" by (cases "quotient_of x")
  have q: "0 < q" using pq by (rule quotient_of_denom_pos)
  have x: "x = of_int p / of_int q" using pq by (rule quotient_of_div)
  have p: "0 < p" using assms x q by (simp add: zero_less_divide_iff)
  define a where "a = bit_length p"
  define b where "b = bit_length q"
  have a: "1 \<le> a" "2 ^ nat (a - 1) \<le> p" "p < 2 ^ nat a"
    using bit_length_bounds [OF p] by (simp_all add: a_def)
  have b: "1 \<le> b" "2 ^ nat (b - 1) \<le> q" "q < 2 ^ nat b"
    using bit_length_bounds [OF q] by (simp_all add: b_def)
  have pa: "(2::rat) powi (a - 1) \<le> of_int p" "of_int p < (2::rat) powi a"
    using a by (simp_all only: two_powi_nat of_int_le_iff of_int_less_iff diff_ge_0_iff_ge order_trans [OF zero_le_one])
  have qb: "(2::rat) powi (b - 1) \<le> of_int q" "of_int q < (2::rat) powi b"
    using b by (simp_all only: two_powi_nat of_int_le_iff of_int_less_iff diff_ge_0_iff_ge order_trans [OF zero_le_one])
  have pos: "0 < (2::rat) powi k" for k by simp
  have "(2::rat) powi (a - 1) / 2 powi b < of_int p / of_int q"
    using pos pa(1) q qb(2) by (intro frac_less2) simp_all
  moreover have "(2::rat) powi ((a - 1) - b) = 2 powi (a - 1) / 2 powi b"
    by (rule power_int_diff) simp
  moreover have "a - b - 1 = (a - 1) - b" by simp
  ultimately have lo: "2 powi (a - b - 1) < x"
    by (simp only: x)
  have "of_int p / of_int q < (2::rat) powi a / 2 powi (b - 1)"
    using p pa(2) pos qb(1) by (intro frac_less) simp_all
  moreover have "(2::rat) powi (a - (b - 1)) = 2 powi a / 2 powi (b - 1)"
    by (rule power_int_diff) simp
  moreover have "a - b + 1 = a - (b - 1)" by simp
  ultimately have hi: "x < 2 powi (a - b + 1)"
    by (simp only: x)
  show ?thesis
  proof (cases "2 powi (a - b) \<le> x")
    case True
    then have "floor_log2 x = a - b"
      by (simp add: floor_log2_def pq a_def b_def)
    then show ?thesis using True hi by simp
  next
    case False
    then have "floor_log2 x = a - b - 1"
      by (simp add: floor_log2_def pq a_def b_def)
    then show ?thesis using False lo by simp
  qed
qed


lemma binary64_error:
  assumes "0 < x"
  shows "\<bar>binary64 x - x\<bar> \<le> x / 2 ^ 53"
proof -
  define k where "k = floor_log2 x"
  define u where "u = (2::rat) powi (k - 52)"
  have u_pos: "0 < u" by (simp add: u_def)
  have "u = 2 powi k / 2 powi 52"
    unfolding u_def by (rule power_int_diff) simp
  moreover have "2 powi k \<le> x"
    using floor_log2_bounds [OF assms] by (simp add: k_def)
  ultimately have u_le: "u \<le> x / 2 ^ 52"
    by (simp add: divide_right_mono)
  have b: "binary64 x = of_int (round_half_even (x / u)) * u"
    using assms by (simp add: binary64_def Let_def k_def u_def)
  have "binary64 x - x = (of_int (round_half_even (x / u)) - x / u) * u"
    using u_pos by (simp add: b algebra_simps)
  then have "\<bar>binary64 x - x\<bar> = \<bar>of_int (round_half_even (x / u)) - x / u\<bar> * u"
    using u_pos by (simp add: abs_mult)
  also have "\<dots> \<le> (1 / 2) * u"
    using round_half_even_error [of "x / u"] u_pos by (intro mult_right_mono) simp_all
  also have "\<dots> \<le> (1 / 2) * (x / 2 ^ 52)"
    using u_le by simp
  also have "\<dots> = x / 2 ^ 53" by simp
  finally show ?thesis .
qed

lemma binary64_interval:
  assumes "0 < lo" "lo \<le> x" "x \<le> hi"
  shows "lo * (1 - 1 / 2 ^ 53) \<le> binary64 x \<and> binary64 x \<le> hi * (1 + 1 / 2 ^ 53) \<and>
         0 < lo * (1 - 1 / 2 ^ 53)"
proof -
  have x: "0 < x" using assms by simp
  define d where "d = x / 2 ^ 53"
  have "\<bar>binary64 x - x\<bar> \<le> d"
    using binary64_error [OF x] by (simp only: d_def)
  then have b: "x - d \<le> binary64 x" "binary64 x \<le> x + d"
    by linarith+
  have "lo * (1 - 1 / 2 ^ 53) \<le> x * (1 - 1 / 2 ^ 53)"
    using assms(2) by (intro mult_right_mono) simp_all
  also have "x * (1 - 1 / 2 ^ 53) = x - d"
    by (simp add: d_def algebra_simps)
  also have "\<dots> \<le> binary64 x" by (rule b(1))
  finally have L: "lo * (1 - 1 / 2 ^ 53) \<le> binary64 x" .
  have "binary64 x \<le> x + d" by (rule b(2))
  also have "x + d = x * (1 + 1 / 2 ^ 53)"
    by (simp add: d_def algebra_simps)
  also have "\<dots> \<le> hi * (1 + 1 / 2 ^ 53)"
    using assms(3) by (intro mult_right_mono) simp_all
  finally have U: "binary64 x \<le> hi * (1 + 1 / 2 ^ 53)" .
  have P: "0 < lo * (1 - 1 / 2 ^ 53)"
    using assms(1) by (intro mult_pos_pos) simp_all
  show ?thesis using L U P by blast
qed


lemma floor_near:
  fixes N e :: int and Q :: rat
  assumes e: "0 < e" and near: "\<bar>Q - of_int N / of_int e\<bar> < 1 / of_int e"
  shows "N div e - 1 \<le> \<lfloor>Q\<rfloor> \<and> \<lfloor>Q\<rfloor> \<le> N div e \<and> (\<not> e dvd N \<longrightarrow> \<lfloor>Q\<rfloor> = N div e)"
proof -
  define E :: rat where "E = of_int e"
  define d where "d = N div e"
  define m where "m = N mod e"
  have E: "0 < E" using e by (simp add: E_def)
  have m: "0 \<le> m" "m < e" using e by (simp_all add: m_def)
  have "N = e * d + m" by (simp add: d_def m_def)
  then have N: "of_int N = E * of_int d + (of_int m :: rat)"
    by (simp add: E_def)
  have "\<bar>Q - of_int N / E\<bar> * E < (1 / E) * E"
    using near E by (intro mult_strict_right_mono) (simp_all add: E_def)
  moreover have "\<bar>Q - of_int N / E\<bar> * E = \<bar>Q * E - of_int N\<bar>"
  proof -
    have "\<bar>Q - of_int N / E\<bar> * E = \<bar>(Q - of_int N / E) * E\<bar>"
      using E by (simp add: abs_mult)
    also have "(Q - of_int N / E) * E = Q * E - of_int N"
      using E by (simp add: algebra_simps)
    finally show ?thesis .
  qed
  ultimately have "\<bar>Q * E - of_int N\<bar> < 1" using E by simp
  then have q: "Q * E < of_int N + 1" "of_int N - 1 < Q * E" by linarith+
  have mE: "(of_int m :: rat) + 1 \<le> E"
  proof -
    have "m + 1 \<le> e" using m by simp
    then have "(of_int (m + 1) :: rat) \<le> of_int e" by (simp only: of_int_le_iff)
    then show ?thesis by (simp add: E_def)
  qed
  have m0: "(0::rat) \<le> of_int m" using m by simp
  have "Q * E < of_int (d + 1) * E"
    using q(1) N mE by (simp add: algebra_simps)
  then have "Q < of_int (d + 1)" using E by (simp only: mult_less_cancel_right_pos)
  then have "\<lfloor>Q\<rfloor> < d + 1" by (simp only: floor_less_iff)
  then have up: "\<lfloor>Q\<rfloor> \<le> d" by simp
  have "of_int (d - 1) * E \<le> Q * E"
    using q(2) N m0 mE by (simp add: algebra_simps)
  then have "of_int (d - 1) \<le> Q" using E by (simp only: mult_le_cancel_right_pos)
  then have lo: "d - 1 \<le> \<lfloor>Q\<rfloor>" by (simp only: le_floor_iff)
  have "\<lfloor>Q\<rfloor> = d" if "\<not> e dvd N"
  proof -
    have "m \<noteq> 0" using that by (simp add: m_def dvd_eq_mod_eq_0)
    then have "1 \<le> m" using m by simp
    then have "(1::rat) \<le> of_int m" by simp
    then have "of_int d * E \<le> Q * E"
      using q(2) N by (simp add: algebra_simps)
    then have "of_int d \<le> Q" using E by (simp only: mult_le_cancel_right_pos)
    then have "d \<le> \<lfloor>Q\<rfloor>" by (simp only: le_floor_iff)
    then show ?thesis using up by simp
  qed
  then show ?thesis using up lo by (simp add: d_def)
qed


lemma ulp_powers:
  "(1 - 6 / 2 ^ 53 :: rat) \<le> (1 - 1 / 2 ^ 53) ^ 5"
  "((1 + 1 / 2 ^ 53) ^ 5 :: rat) \<le> 1 + 6 / 2 ^ 53"
  by (simp_all add: power_divide)

lemma product_of_five:
  fixes N y k c :: rat
  shows "((N * c) * (y * c) * c) * (k * c) * c = (N * y * k) * c ^ 5"
  by (simp add: eval_nat_numeral)

lemma suggested_chain:
  fixes n e :: int
  assumes n: "1 \<le> n" and e: "0 < e"
  shows "of_int (4000 * n) / of_int e * (1 - 1 / 2 ^ 53) ^ 5 \<le>
           float_mul (float_mul (float_of_int n) (float_truediv TOKEN_LIMIT e)) (binary64 (8 / 10)) \<and>
         float_mul (float_mul (float_of_int n) (float_truediv TOKEN_LIMIT e)) (binary64 (8 / 10)) \<le>
           of_int (4000 * n) / of_int e * (1 + 1 / 2 ^ 53) ^ 5"
proof -
  define c1 :: rat where "c1 = 1 - 1 / 2 ^ 53"
  define c2 :: rat where "c2 = 1 + 1 / 2 ^ 53"
  note I = binary64_interval [folded c1_def c2_def]
  have c: "0 < c1" "0 < c2" by (simp_all add: c1_def c2_def)
  define y :: rat where "y = 5000 / of_int e"
  have y: "0 < y" using e by (simp add: y_def)
  define N :: rat where "N = of_int n"
  have N: "0 < N" using n by (simp add: N_def)
  define A where "A = float_of_int n"
  define r where "r = float_truediv TOKEN_LIMIT e"
  define P where "P = float_mul A r"
  define c8 where "c8 = binary64 (8 / 10)"
  define Q where "Q = float_mul P c8"
  have A: "N * c1 \<le> A \<and> A \<le> N * c2 \<and> 0 < N * c1"
    unfolding A_def float_of_int_def N_def [symmetric] using N by (intro I) simp_all
  have "of_int TOKEN_LIMIT / of_int e = y" by (simp add: y_def TOKEN_LIMIT_def)
  then have r: "y * c1 \<le> r \<and> r \<le> y * c2 \<and> 0 < y * c1"
    unfolding r_def float_truediv_def using y by (simp only:) (intro I, simp_all)
  have Apos: "0 < A" using A by linarith
  have rpos: "0 < r" using r by linarith
  have Pl: "(N * c1) * (y * c1) \<le> A * r"
    using A r Apos by (intro mult_mono) simp_all
  have Pu: "A * r \<le> (N * c2) * (y * c2)"
    using A r N y c rpos by (intro mult_mono) simp_all
  have Pp: "0 < (N * c1) * (y * c1)"
    by (rule mult_pos_pos) (use A r in blast)+
  have P: "(N * c1) * (y * c1) * c1 \<le> P \<and> P \<le> (N * c2) * (y * c2) * c2 \<and>
      0 < (N * c1) * (y * c1) * c1"
    unfolding P_def float_mul_def using Pp Pl Pu by (rule I)
  have c8: "(8 / 10) * c1 \<le> c8 \<and> c8 \<le> (8 / 10) * c2 \<and> 0 < (8 / 10) * c1"
    unfolding c8_def by (intro I) simp_all
  have Ppos: "0 < P" using P by linarith
  have c8pos: "0 < c8" using c8 by linarith
  have Ql: "((N * c1) * (y * c1) * c1) * ((8 / 10) * c1) \<le> P * c8"
    using P c8 Ppos by (intro mult_mono) simp_all
  have Qu: "P * c8 \<le> ((N * c2) * (y * c2) * c2) * ((8 / 10) * c2)"
    using P c8 N y c c8pos by (intro mult_mono) simp_all
  have Qp: "0 < ((N * c1) * (y * c1) * c1) * ((8 / 10) * c1)"
    by (rule mult_pos_pos) (use P c8 in blast)+
  have Q: "((N * c1) * (y * c1) * c1) * ((8 / 10) * c1) * c1 \<le> Q \<and>
      Q \<le> ((N * c2) * (y * c2) * c2) * ((8 / 10) * c2) * c2 \<and>
      0 < ((N * c1) * (y * c1) * c1) * ((8 / 10) * c1) * c1"
    unfolding Q_def float_mul_def using Qp Ql Qu by (rule I)
  have x: "N * y * (8 / 10) = of_int (4000 * n) / of_int e"
    by (simp add: N_def y_def)
  have "of_int (4000 * n) / of_int e * c1 ^ 5 \<le> Q \<and> Q \<le> of_int (4000 * n) / of_int e * c2 ^ 5"
    using Q by (simp only: product_of_five x)
  then show ?thesis
    by (simp only: Q_def P_def A_def r_def c8_def c1_def c2_def)
qed


lemma suggested_limit_value:
  fixes n e :: int
  assumes n: "1 \<le> n" "n \<le> 2 ^ 38" and e: "0 < e"
  shows "\<exists>c. suggested_limit_of (Some n) e = Some (max 1 c) \<and>
           (4000 * n) div e - 1 \<le> c \<and> c \<le> (4000 * n) div e \<and>
           (\<not> e dvd 4000 * n \<longrightarrow> c = (4000 * n) div e)"
proof -
  define Q where
    "Q = float_mul (float_mul (float_of_int n) (float_truediv TOKEN_LIMIT e)) (binary64 (8 / 10))"
  define x :: rat where "x = of_int (4000 * n) / of_int e"
  define E :: rat where "E = of_int e"
  have E: "0 < E" using e by (simp add: E_def)
  have xpos: "0 < x" using n e by (simp add: x_def)
  have chain: "x * (1 - 1 / 2 ^ 53) ^ 5 \<le> Q" "Q \<le> x * (1 + 1 / 2 ^ 53) ^ 5"
    using suggested_chain [OF n(1) e] by (simp_all only: Q_def x_def)
  have "x * (1 - 6 / 2 ^ 53) \<le> x * (1 - 1 / 2 ^ 53) ^ 5"
    using xpos ulp_powers(1) by (intro mult_left_mono) simp_all
  then have lo: "x * (1 - 6 / 2 ^ 53) \<le> Q" using chain(1) by (rule order_trans)
  have "x * (1 + 1 / 2 ^ 53) ^ 5 \<le> x * (1 + 6 / 2 ^ 53)"
    using xpos ulp_powers(2) by (intro mult_left_mono) simp_all
  then have hi: "Q \<le> x * (1 + 6 / 2 ^ 53)" using chain(2) by (rule order_trans [rotated])
  define d :: rat where "d = x * (6 / 2 ^ 53)"
  have "x * (1 - 6 / 2 ^ 53) = x - d" "x * (1 + 6 / 2 ^ 53) = x + d"
    by (simp_all add: d_def algebra_simps)
  then have "x - d \<le> Q" "Q \<le> x + d" using lo hi by simp_all
  then have near: "\<bar>Q - x\<bar> \<le> d" by linarith
  have "4000 * n * 6 < (2::int) ^ 53"
  proof -
    have "4000 * n * 6 \<le> 4000 * 2 ^ 38 * (6::int)" using n(2) by simp
    also have "\<dots> < 2 ^ 53" by simp
    finally show ?thesis .
  qed
  then have "(of_int (4000 * n * 6) :: rat) < of_int (2 ^ 53)"
    by (simp only: of_int_less_iff)
  then have "(of_int (4000 * n) :: rat) * (6 / 2 ^ 53) < 1"
    by simp
  then have "of_int (4000 * n) * (6 / 2 ^ 53) / E < 1 / E"
    using E by (simp only: divide_strict_right_mono)
  moreover have "d = of_int (4000 * n) * (6 / 2 ^ 53) / E"
    by (simp add: d_def x_def E_def)
  ultimately have "d < 1 / of_int e" by (simp only: E_def)
  then have "\<bar>Q - x\<bar> < 1 / of_int e"
    using near by linarith
  then have "\<bar>Q - of_int (4000 * n) / of_int e\<bar> < 1 / of_int e"
    by (simp only: x_def)
  from floor_near [OF e this]
  have fl: "(4000 * n) div e - 1 \<le> \<lfloor>Q\<rfloor> \<and> \<lfloor>Q\<rfloor> \<le> (4000 * n) div e \<and>
      (\<not> e dvd 4000 * n \<longrightarrow> \<lfloor>Q\<rfloor> = (4000 * n) div e)" .
  have "0 < x * (1 - 6 / 2 ^ 53)" using xpos by (intro mult_pos_pos) simp_all
  then have "0 \<le> Q" using lo by linarith
  then have "int_of_float Q = \<lfloor>Q\<rfloor>" by (simp add: int_of_float_def)
  then have "suggested_limit_of (Some n) e = Some (max 1 \<lfloor>Q\<rfloor>)"
    using n(1) by (simp add: suggested_limit_of_def Let_def Q_def)
  then show ?thesis using fl by blast
qed

lemma suggested_limit_77: "suggested_limit_of (Some 77) 9625 = Some 31"
  by code_simp

text \<open>
  C3 (as amended). When the guard rejects a payload, the diagnostic holds the row count
  and the suggested cap computed from it. The cap is absent when the row count is
  unknown, and also when it is known to be zero. For a known row count \<open>n\<close> from 1 to
  \<open>2 ^ 38\<close> and the estimate \<open>e\<close>, the cap is \<open>max 1 c\<close> where \<open>c\<close> is the floor of
  \<open>4000 * n / e\<close> (which is \<open>n * (5000 / e) * 0.8\<close>) or one less; it is that floor
  whenever \<open>e\<close> does not divide \<open>4000 * n\<close>.
\<close>

theorem suggested_limit_in_diagnostic:
  assumes over: "5000 < estimate_token_count payload"
  shows "enforce_token_limit loads payload context =
           json_dumps (PyDict
             [(PyStr (py ''error''), PyStr (py ''Result exceeds token budget'')),
              (PyStr (py ''context''), PyStr context),
              (PyStr (py ''estimated_tokens''), PyInt (estimate_token_count payload)),
              (PyStr (py ''token_limit''), PyInt 5000),
              (PyStr (py ''rows_returned''), py_optional (current_size_of loads payload)),
              (PyStr (py ''suggested_limit''),
                 py_optional (suggested_limit_of (current_size_of loads payload)
                                (estimate_token_count payload))),
              (PyStr (py ''suggestion''),
                 PyStr (join [10] (suggestion_parts
                   (suggested_limit_of (current_size_of loads payload)
                      (estimate_token_count payload)))))]) \<and>
         (current_size_of loads payload = None \<or> current_size_of loads payload = Some 0 \<longrightarrow>
            suggested_limit_of (current_size_of loads payload) (estimate_token_count payload) =
              None) \<and>
         (current_size_of loads payload = Some n \<and> 1 \<le> n \<and> n \<le> 2 ^ 38 \<longrightarrow>
            (\<exists>c. suggested_limit_of (current_size_of loads payload)
                    (estimate_token_count payload) = Some (max 1 c) \<and>
                 (4000 * n) div estimate_token_count payload - 1 \<le> c \<and>
                 c \<le> (4000 * n) div estimate_token_count payload \<and>
                 (\<not> estimate_token_count payload dvd 4000 * n \<longrightarrow>
                    c = (4000 * n) div estimate_token_count payload)))"
proof (intro conjI impI)
  have "TOKEN_LIMIT < estimate_token_count payload"
    using over by (simp add: TOKEN_LIMIT_def)
  then have "enforce_token_limit loads payload context =
      json_dumps (token_warning loads payload context)"
    by (rule enforce_over_budget)
  then show "enforce_token_limit loads payload context =
           json_dumps (PyDict
             [(PyStr (py ''error''), PyStr (py ''Result exceeds token budget'')),
              (PyStr (py ''context''), PyStr context),
              (PyStr (py ''estimated_tokens''), PyInt (estimate_token_count payload)),
              (PyStr (py ''token_limit''), PyInt 5000),
              (PyStr (py ''rows_returned''), py_optional (current_size_of loads payload)),
              (PyStr (py ''suggested_limit''),
                 py_optional (suggested_limit_of (current_size_of loads payload)
                                (estimate_token_count payload))),
              (PyStr (py ''suggestion''),
                 PyStr (join [10] (suggestion_parts
                   (suggested_limit_of (current_size_of loads payload)
                      (estimate_token_count payload)))))])"
    by (simp only: token_warning_def Let_def TOKEN_LIMIT_def)
next
  assume "current_size_of loads payload = None \<or> current_size_of loads payload = Some 0"
  then show "suggested_limit_of (current_size_of loads payload) (estimate_token_count payload) =
      None"
    by (auto simp: suggested_limit_of_def)
next
  assume a: "current_size_of loads payload = Some n \<and> 1 \<le> n \<and> n \<le> 2 ^ 38"
  have "0 < estimate_token_count payload" using over by simp
  then show "\<exists>c. suggested_limit_of (current_size_of loads payload)
                    (estimate_token_count payload) = Some (max 1 c) \<and>
                 (4000 * n) div estimate_token_count payload - 1 \<le> c \<and>
                 c \<le> (4000 * n) div estimate_token_count payload \<and>
                 (\<not> estimate_token_count payload dvd 4000 * n \<longrightarrow>
                    c = (4000 * n) div estimate_token_count payload)"
    using a suggested_limit_value [of n "estimate_token_count payload"] by simp
qed

text \<open>
  A payload of 77 rows and 28875 characters: the estimate is 9625, which divides
  \<open>4000 * 77\<close>, and the cap is 31 or 32.
\<close>

theorem suggested_limit_in_diagnostic_witness:
  "5000 < estimate_token_count
     (py ''['' @ concat (replicate 76 (py ''0,'')) @ py ''0'' @ replicate 28720 32 @ py '']'') \<and>
   current_size_of (\<lambda>p. Some (replicate 77 (PyInt 0)))
     (py ''['' @ concat (replicate 76 (py ''0,'')) @ py ''0'' @ replicate 28720 32 @ py '']'') =
     Some 77 \<and>
   (\<exists>c. suggested_limit_of
          (current_size_of (\<lambda>p. Some (replicate 77 (PyInt 0)))
             (py ''['' @ concat (replicate 76 (py ''0,'')) @ py ''0'' @ replicate 28720 32 @
              py '']''))
          (estimate_token_count
             (py ''['' @ concat (replicate 76 (py ''0,'')) @ py ''0'' @ replicate 28720 32 @
              py '']'')) = Some (max 1 c) \<and>
        31 \<le> c \<and> c \<le> 32)"
proof -
  let ?P = "py ''['' @ concat (replicate 76 (py ''0,'')) @ py ''0'' @ replicate 28720 32 @ py '']''"
  let ?L = "\<lambda>p::pystr. Some (replicate 77 (PyInt 0))"
  have len: "length (concat (replicate 76 (py ''0,''))) = 152"
    by (simp add: length_concat length_py sum_list_replicate)
  have e: "estimate_token_count ?P = 9625"
    by (simp add: estimate_token_count_def length_py len)
  have over: "5000 < estimate_token_count ?P" by (simp only: e)
  have cs: "current_size_of ?L ?P = Some 77"
    by (simp add: current_size_of_def startswith_def py_def)
  have n: "current_size_of ?L ?P = Some 77 \<and> (1::int) \<le> 77 \<and> (77::int) \<le> 2 ^ 38"
    using cs by simp
  from suggested_limit_in_diagnostic [where payload = ?P and loads = ?L and n = 77, OF over] n
  obtain c where c: "suggested_limit_of (current_size_of ?L ?P) (estimate_token_count ?P) =
        Some (max 1 c)"
      "(4000 * 77) div estimate_token_count ?P - 1 \<le> c"
      "c \<le> (4000 * 77) div estimate_token_count ?P"
    by blast
  have "31 \<le> c" "c \<le> 32" using c(2,3) by (simp_all add: e)
  then show ?thesis using over cs c(1) by blast
qed

text \<open>
  C3 as stated fails in two ways. A rejected payload that is an empty array padded with
  blanks has the known row count 0, and its diagnostic has no suggested cap, where the
  formula gives 1. And for 77 rows and the estimate 9625 the cap is 31, where the formula
  in exact arithmetic gives 32: the quotient and the products are rounded.
\<close>

theorem suggested_limit_counterexample:
  "5000 < estimate_token_count (py ''['' @ replicate 15000 32 @ py '']'') \<and>
   current_size_of (\<lambda>p. Some []) (py ''['' @ replicate 15000 32 @ py '']'') = Some 0 \<and>
   suggested_limit_of (current_size_of (\<lambda>p. Some []) (py ''['' @ replicate 15000 32 @ py '']''))
     (estimate_token_count (py ''['' @ replicate 15000 32 @ py '']'')) = None \<and>
   suggested_limit_of (Some 77) 9625 = Some 31 \<and>
   max 1 \<lfloor>(77::rat) * (5000 / 9625) * (8 / 10)\<rfloor> = 32"
proof -
  let ?P = "py ''['' @ replicate 15000 32 @ py '']''"
  have over: "5000 < estimate_token_count ?P"
    by (simp add: estimate_token_count_def length_py)
  have cs: "current_size_of (\<lambda>p. Some []) ?P = Some 0"
    by (simp add: current_size_of_def startswith_def py_def)
  have sl: "suggested_limit_of (current_size_of (\<lambda>p. Some []) ?P) (estimate_token_count ?P) = None"
    by (simp only: cs) (simp add: suggested_limit_of_def)
  have ex: "max 1 \<lfloor>(77::rat) * (5000 / 9625) * (8 / 10)\<rfloor> = 32"
    by simp
  show ?thesis using over cs sl suggested_limit_77 ex by blast
qed


end
